theory Spec2Isabelle
  imports Main "HOL-Library.Word" "HOL-Library.AList" "HOL-Library.Multiset"
begin

unbundle bit_operations_syntax

section \<open>Hashing (fnv32, strfnv32)\<close>

text \<open>
  A Go \<open>string\<close> is a sequence of bytes; it is modelled as \<open>string\<close> (a list of 8-bit
  \<open>char\<close>s), and \<open>uint32(key[i])\<close> is \<open>of_char\<close> into \<open>32 word\<close>. \<open>uint32\<close>
  arithmetic wraps, as \<open>32 word\<close> does.
\<close>

definition prime32 :: "32 word" where
  "prime32 = 16777619"

text \<open>The body of the loop \<open>for i := 0; i < keyLength; i++\<close> of \<open>fnv32\<close>, from index \<open>i\<close> on.\<close>

primrec fnv32_loop :: "string \<Rightarrow> 32 word \<Rightarrow> 32 word" where
  "fnv32_loop [] hash = hash"
| "fnv32_loop (b # key) hash = fnv32_loop key ((hash * prime32) XOR of_char b)"

definition fnv32 :: "string \<Rightarrow> 32 word" where
  "fnv32 key = fnv32_loop key 2166136261"

text \<open>\<open>strfnv32\<close>: the key's \<open>String()\<close> method is the parameter \<open>String\<close>.\<close>

definition strfnv32 :: "('k \<Rightarrow> string) \<Rightarrow> 'k \<Rightarrow> 32 word" where
  "strfnv32 String key = fnv32 (String key)"

text \<open>
  The hash as the specification words it, on natural numbers with the reduction modulo
  \<open>2 ^ 32\<close> written out: start from 2166136261 and, for each byte in order,
  \<open>hash = (hash * 16777619) xor byte\<close>.
\<close>

definition spec_hash_step :: "nat \<Rightarrow> char \<Rightarrow> nat" where
  "spec_hash_step hash b = (((hash * 16777619) mod 2 ^ 32) XOR of_char b) mod 2 ^ 32"

definition spec_hash :: "string \<Rightarrow> nat" where
  "spec_hash s = foldl spec_hash_step 2166136261 s"

section \<open>Panics and Go maps\<close>

text \<open>
  Every way an operation of the package can fail to return. The first is the explicit
  \<open>panic\<close> of \<open>snapshot\<close>; the others are raised by the Go runtime.
\<close>

datatype panic =
    NotInitialized    \<comment> \<open>\<open>cmap.ConcurrentMap is not initialized. Should run New() before usage.\<close>\<close>
  | NilDereference    \<comment> \<open>call of a nil function value (\<open>m.sharding\<close> of a zero-value map)\<close>
  | DivideByZero      \<comment> \<open>\<open>%\<close> by \<open>uint(SHARD_COUNT) = 0\<close>\<close>
  | IndexOutOfRange   \<comment> \<open>\<open>m.shards[i]\<close> or \<open>chans[index]\<close> with the index beyond the length\<close>
  | MakeSliceLen      \<comment> \<open>\<open>make\<close> of a slice with a negative length\<close>
  | NegativeWaitGroup \<comment> \<open>\<open>sync: negative WaitGroup counter\<close>\<close>
  | SendOnClosedChannel \<comment> \<open>\<open>send on closed channel\<close>\<close>
  | BlocksForever     \<comment> \<open>\<open>wg.Wait()\<close> that is never released\<close>

text \<open>
  A Go \<open>map[K]V\<close> is an association list read through \<open>map_of\<close>; two lists stand for the
  same Go map when their \<open>map_of\<close> agree. \<open>zeroV\<close> is the zero value of the type \<open>V\<close>.
\<close>

type_synonym ('k, 'v) gomap = "('k \<times> 'v) list"

text \<open>\<open>v, ok := items[key]\<close>\<close>

definition go_lookup :: "'v \<Rightarrow> ('k, 'v) gomap \<Rightarrow> 'k \<Rightarrow> 'v \<times> bool" where
  "go_lookup zeroV items key =
     (case map_of items key of None \<Rightarrow> (zeroV, False) | Some v \<Rightarrow> (v, True))"

text \<open>\<open>items[key] = value\<close>\<close>

definition go_store :: "'k \<Rightarrow> 'v \<Rightarrow> ('k, 'v) gomap \<Rightarrow> ('k, 'v) gomap" where
  "go_store key value items = AList.update key value items"

text \<open>\<open>delete(items, key)\<close>\<close>

definition go_delete :: "'k \<Rightarrow> ('k, 'v) gomap \<Rightarrow> ('k, 'v) gomap" where
  "go_delete key items = AList.delete key items"

text \<open>
  The entries a \<open>range\<close> over the map visits: every key once, with the value bound to it.
  The order in which the runtime visits them is not fixed by the language; the operations
  that iterate take it as a parameter (see \<open>delivery\<close> below).
\<close>

definition go_range :: "('k, 'v) gomap \<Rightarrow> ('k \<times> 'v) list" where
  "go_range items = AList.clearjunk items"

text \<open>\<open>len(items)\<close>\<close>

definition go_len :: "('k, 'v) gomap \<Rightarrow> nat" where
  "go_len items = length (go_range items)"

text \<open>
  The order in which the runtime delivers a collection of entries: the iteration order of
  a \<open>range\<close> over a map, and the interleaving in which the goroutines of \<open>fanIn\<close> and
  \<open>Keys\<close> send to the output channel. Any rearrangement is possible; a delivery is
  \<open>fair\<close> when it delivers every entry exactly once.
\<close>

type_synonym 'a delivery = "'a list \<Rightarrow> 'a list"


text \<open>
  A call that starts goroutines can leave some of them about to panic while its caller
  is already free to go on: \<open>snapshot\<close> and \<open>Keys\<close> do when the map has more shards than
  \<open>SHARD_COUNT\<close>. The panic of a goroutine ends the process; the runtime decides whether
  the caller has the result of the call by then.
\<close>

datatype race =
    CallerFirst     \<comment> \<open>the call returns its result before a goroutine panics\<close>
  | GoroutineFirst  \<comment> \<open>a goroutine panics first, at \<open>chans[index]\<close> or at \<open>wg.Done()\<close>\<close>
  | SenderFirst     \<comment> \<open>in \<open>Keys\<close>: a goroutine panics first, sending to the channel just closed\<close>

text \<open>
  What the runtime decides during a call that starts goroutines: the delivery of the
  entries to the consumer of the channel, and the winner of such a race.
\<close>

record 'a runtime =
  deliver :: "'a delivery"
  winner :: race

text \<open>\<open>uint(x)\<close> of a Go \<open>int\<close> (64 bits): the value modulo \<open>2 ^ 64\<close>.\<close>

definition go_uint :: "int \<Rightarrow> nat" where
  "go_uint x = nat (x mod 2 ^ 64)"

section \<open>The sharded map\<close>

text \<open>
  \<open>ConcurrentMapShared\<close>: the shard's inner map. Its \<open>sync.RWMutex\<close> is not modelled:
  the operations are run one at a time, each takes the lock of one shard, and releases it
  before it returns.
\<close>

record ('k, 'v) ConcurrentMapShared =
  items :: "('k, 'v) gomap"

text \<open>
  \<open>ConcurrentMap\<close>: the slice of shard pointers is the list of the shards they point to
  (\<open>create\<close> allocates one shard per index, so no two indices alias), and a pointer to a
  shard is its index. \<open>sharding\<close> is \<open>None\<close> for the nil function of the zero value.
\<close>

record ('k, 'v) ConcurrentMap =
  shards :: "('k, 'v) ConcurrentMapShared list"
  sharding :: "('k \<Rightarrow> 32 word) option"

text \<open>The zero value \<open>ConcurrentMap[K, V]{}\<close>, never passed through a factory.\<close>

definition zero_value :: "('k, 'v) ConcurrentMap" where
  "zero_value = \<lparr>shards = [], sharding = None\<rparr>"

text \<open>
  The package variable \<open>SHARD_COUNT\<close> is read by \<open>create\<close>, \<open>GetShard\<close>, \<open>Count\<close>,
  \<open>snapshot\<close> and \<open>Keys\<close> each time they run; every operation takes the value in force
  at its call as its first argument. It is a Go \<open>int\<close>.
\<close>

definition go_int :: "int \<Rightarrow> bool" where
  "go_int x = (- (2 ^ 63) \<le> x \<and> x < 2 ^ 63)"

text \<open>
  \<open>create\<close>: \<open>make\<close> panics on a negative length; then every index gets a shard of its
  own with an empty inner map. (The memory that a very large \<open>SHARD_COUNT\<close> needs is not
  modelled.)
\<close>

definition create :: "int \<Rightarrow> ('k \<Rightarrow> 32 word) \<Rightarrow> panic + ('k, 'v) ConcurrentMap" where
  "create SHARD_COUNT sharding' =
     (if SHARD_COUNT < 0 then Inl MakeSliceLen
      else Inr \<lparr>shards = replicate (nat SHARD_COUNT) \<lparr>items = []\<rparr>,
                sharding = Some sharding'\<rparr>)"

definition New :: "int \<Rightarrow> panic + (string, 'v) ConcurrentMap" where
  "New SHARD_COUNT = create SHARD_COUNT fnv32"

definition NewStringer :: "('k \<Rightarrow> string) \<Rightarrow> int \<Rightarrow> panic + ('k, 'v) ConcurrentMap" where
  "NewStringer String SHARD_COUNT = create SHARD_COUNT (strfnv32 String)"

definition NewWithCustomShardingFunction ::
  "int \<Rightarrow> ('k \<Rightarrow> 32 word) \<Rightarrow> panic + ('k, 'v) ConcurrentMap" where
  "NewWithCustomShardingFunction SHARD_COUNT sharding' = create SHARD_COUNT sharding'"

text \<open>
  \<open>GetShard\<close> evaluates \<open>m.sharding(key)\<close>, then the remainder by \<open>uint(SHARD_COUNT)\<close>,
  then the index into \<open>m.shards\<close>; each step can panic. The result is the index of the
  shard the returned pointer points to.
\<close>

definition GetShard :: "int \<Rightarrow> ('k, 'v) ConcurrentMap \<Rightarrow> 'k \<Rightarrow> panic + nat" where
  "GetShard SHARD_COUNT m key =
     (case sharding m of
        None \<Rightarrow> Inl NilDereference
      | Some f \<Rightarrow>
          if go_uint SHARD_COUNT = 0 then Inl DivideByZero
          else if unat (f key) mod go_uint SHARD_COUNT < length (shards m)
            then Inr (unat (f key) mod go_uint SHARD_COUNT)
            else Inl IndexOutOfRange)"

text \<open>The shard behind a pointer, and the map after the inner map of that shard is replaced.\<close>

definition shard_items :: "('k, 'v) ConcurrentMap \<Rightarrow> nat \<Rightarrow> ('k, 'v) gomap" where
  "shard_items m i = items (shards m ! i)"

definition put_items :: "('k, 'v) ConcurrentMap \<Rightarrow> nat \<Rightarrow> ('k, 'v) gomap \<Rightarrow> ('k, 'v) ConcurrentMap" where
  "put_items m i its = m\<lparr>shards := (shards m)[i := (shards m ! i)\<lparr>items := its\<rparr>]\<rparr>"

section \<open>Keyed operations\<close>

text \<open>
  An operation that mutates the map returns the map after it (with the value it returns,
  if any); one that panics returns the panic and no map.
\<close>

definition Set :: "int \<Rightarrow> ('k, 'v) ConcurrentMap \<Rightarrow> 'k \<Rightarrow> 'v \<Rightarrow> panic + ('k, 'v) ConcurrentMap" where
  "Set SHARD_COUNT m key value =
     (case GetShard SHARD_COUNT m key of
        Inl e \<Rightarrow> Inl e
      | Inr shard \<Rightarrow> Inr (put_items m shard (go_store key value (shard_items m shard))))"

text \<open>The loop \<open>for key, value := range data\<close> of \<open>MSet\<close>, over the entries in delivery order.\<close>

fun MSet_loop :: "int \<Rightarrow> ('k, 'v) ConcurrentMap \<Rightarrow> ('k \<times> 'v) list \<Rightarrow> panic + ('k, 'v) ConcurrentMap" where
  "MSet_loop SHARD_COUNT m [] = Inr m"
| "MSet_loop SHARD_COUNT m (entry # rest) =
     (case GetShard SHARD_COUNT m (fst entry) of
        Inl e \<Rightarrow> Inl e
      | Inr shard \<Rightarrow>
          MSet_loop SHARD_COUNT
            (put_items m shard (go_store (fst entry) (snd entry) (shard_items m shard))) rest)"

definition MSet ::
  "('k \<times> 'v) delivery \<Rightarrow> int \<Rightarrow> ('k, 'v) ConcurrentMap \<Rightarrow> ('k, 'v) gomap \<Rightarrow> panic + ('k, 'v) ConcurrentMap" where
  "MSet rt SHARD_COUNT m data = MSet_loop SHARD_COUNT m (rt (go_range data))"

text \<open>\<open>UpsertCb\<close>: \<open>func(exist bool, valueInMap V, newValue V) V\<close>.\<close>

type_synonym 'v UpsertCb = "bool \<Rightarrow> 'v \<Rightarrow> 'v \<Rightarrow> 'v"

definition Upsert ::
  "int \<Rightarrow> 'v \<Rightarrow> ('k, 'v) ConcurrentMap \<Rightarrow> 'k \<Rightarrow> 'v \<Rightarrow> 'v UpsertCb \<Rightarrow> panic + (('k, 'v) ConcurrentMap \<times> 'v)" where
  "Upsert SHARD_COUNT zeroV m key value cb =
     (case GetShard SHARD_COUNT m key of
        Inl e \<Rightarrow> Inl e
      | Inr shard \<Rightarrow>
          (let (v, ok) = go_lookup zeroV (shard_items m shard) key;
               res = cb ok v value
           in Inr (put_items m shard (go_store key res (shard_items m shard)), res)))"

definition SetIfAbsent ::
  "int \<Rightarrow> 'v \<Rightarrow> ('k, 'v) ConcurrentMap \<Rightarrow> 'k \<Rightarrow> 'v \<Rightarrow> panic + (('k, 'v) ConcurrentMap \<times> bool)" where
  "SetIfAbsent SHARD_COUNT zeroV m key value =
     (case GetShard SHARD_COUNT m key of
        Inl e \<Rightarrow> Inl e
      | Inr shard \<Rightarrow>
          (let (_, ok) = go_lookup zeroV (shard_items m shard) key
           in Inr (if \<not> ok then put_items m shard (go_store key value (shard_items m shard)) else m,
                   \<not> ok)))"

definition Get :: "int \<Rightarrow> 'v \<Rightarrow> ('k, 'v) ConcurrentMap \<Rightarrow> 'k \<Rightarrow> panic + ('v \<times> bool)" where
  "Get SHARD_COUNT zeroV m key =
     (case GetShard SHARD_COUNT m key of
        Inl e \<Rightarrow> Inl e
      | Inr shard \<Rightarrow> Inr (go_lookup zeroV (shard_items m shard) key))"

text \<open>The loop \<open>for i := 0; i < SHARD_COUNT; i++\<close> of \<open>Count\<close>, over the indices left to visit.\<close>

fun Count_loop :: "('k, 'v) ConcurrentMap \<Rightarrow> nat list \<Rightarrow> int \<Rightarrow> panic + int" where
  "Count_loop m [] count' = Inr count'"
| "Count_loop m (i # rest) count' =
     (if i < length (shards m)
      then Count_loop m rest (count' + int (go_len (shard_items m i)))
      else Inl IndexOutOfRange)"

definition Count :: "int \<Rightarrow> ('k, 'v) ConcurrentMap \<Rightarrow> panic + int" where
  "Count SHARD_COUNT m = Count_loop m [0..<nat SHARD_COUNT] 0"

definition Has :: "int \<Rightarrow> 'v \<Rightarrow> ('k, 'v) ConcurrentMap \<Rightarrow> 'k \<Rightarrow> panic + bool" where
  "Has SHARD_COUNT zeroV m key =
     (case GetShard SHARD_COUNT m key of
        Inl e \<Rightarrow> Inl e
      | Inr shard \<Rightarrow> Inr (snd (go_lookup zeroV (shard_items m shard) key)))"

definition Remove :: "int \<Rightarrow> ('k, 'v) ConcurrentMap \<Rightarrow> 'k \<Rightarrow> panic + ('k, 'v) ConcurrentMap" where
  "Remove SHARD_COUNT m key =
     (case GetShard SHARD_COUNT m key of
        Inl e \<Rightarrow> Inl e
      | Inr shard \<Rightarrow> Inr (put_items m shard (go_delete key (shard_items m shard))))"

text \<open>\<open>RemoveCb\<close> (the callback type): \<open>func(key K, v V, exists bool) bool\<close>.\<close>

type_synonym ('k, 'v) RemoveCb_fn = "'k \<Rightarrow> 'v \<Rightarrow> bool \<Rightarrow> bool"

definition RemoveCb ::
  "int \<Rightarrow> 'v \<Rightarrow> ('k, 'v) ConcurrentMap \<Rightarrow> 'k \<Rightarrow> ('k, 'v) RemoveCb_fn \<Rightarrow> panic + (('k, 'v) ConcurrentMap \<times> bool)" where
  "RemoveCb SHARD_COUNT zeroV m key cb =
     (case GetShard SHARD_COUNT m key of
        Inl e \<Rightarrow> Inl e
      | Inr shard \<Rightarrow>
          (let (v, ok) = go_lookup zeroV (shard_items m shard) key;
               remove = cb key v ok
           in Inr (if remove \<and> ok then put_items m shard (go_delete key (shard_items m shard)) else m,
                   remove)))"

definition Pop ::
  "int \<Rightarrow> 'v \<Rightarrow> ('k, 'v) ConcurrentMap \<Rightarrow> 'k \<Rightarrow> panic + (('k, 'v) ConcurrentMap \<times> 'v \<times> bool)" where
  "Pop SHARD_COUNT zeroV m key =
     (case GetShard SHARD_COUNT m key of
        Inl e \<Rightarrow> Inl e
      | Inr shard \<Rightarrow>
          (let (v, exists) = go_lookup zeroV (shard_items m shard) key
           in Inr (put_items m shard (go_delete key (shard_items m shard)), v, exists)))"

definition IsEmpty :: "int \<Rightarrow> ('k, 'v) ConcurrentMap \<Rightarrow> panic + bool" where
  "IsEmpty SHARD_COUNT m =
     (case Count SHARD_COUNT m of Inl e \<Rightarrow> Inl e | Inr count' \<Rightarrow> Inr (count' = 0))"

section \<open>Snapshots and bulk operations\<close>

text \<open>
  A \<open>Tuple\<close> is the pair of its \<open>Key\<close> and \<open>Val\<close>. A channel that has been filled and
  closed is the list of the tuples sent to it.

  \<open>snapshot\<close> panics on an empty shard slice; then it makes \<open>SHARD_COUNT\<close> channels
  (\<open>make\<close> panics on a negative length), sets the wait group to \<open>SHARD_COUNT\<close> and starts
  one goroutine per shard of the map; the goroutine of shard \<open>index\<close> makes
  \<open>chans[index]\<close>, calls \<open>wg.Done()\<close> and fills the channel.
  \<^item> With as many shards as \<open>SHARD_COUNT\<close>, channel \<open>index\<close> holds the entries of shard
    \<open>index\<close>.
  \<^item> With fewer shards, \<open>wg.Wait()\<close> is never released.
  \<^item> With more shards, \<open>wg.Wait()\<close> is released by the goroutines of the first
    \<open>SHARD_COUNT\<close> shards (at once when \<open>SHARD_COUNT\<close> is 0), and the goroutines of the
    other shards panic at \<open>chans[index]\<close>: either the process ends before the caller has
    a result, or the caller has the channels of the first \<open>SHARD_COUNT\<close> shards first.
\<close>

definition snapshot ::
  "('k \<times> 'v) runtime \<Rightarrow> int \<Rightarrow> ('k, 'v) ConcurrentMap \<Rightarrow> panic + ('k \<times> 'v) list list" where
  "snapshot rt SHARD_COUNT m =
     (if length (shards m) = 0 then Inl NotInitialized
      else if SHARD_COUNT < 0 then Inl MakeSliceLen
      else if nat SHARD_COUNT < length (shards m) then
        (if winner rt = CallerFirst
         then Inr (map (\<lambda>shard. go_range (items shard)) (take (nat SHARD_COUNT) (shards m)))
         else Inl IndexOutOfRange)
      else if length (shards m) < nat SHARD_COUNT then Inl BlocksForever
      else Inr (map (\<lambda>shard. go_range (items shard)) (shards m)))"

text \<open>\<open>fanIn\<close>: everything the channels hold reaches \<open>out\<close>, in the order of the delivery.\<close>

definition fanIn :: "('k \<times> 'v) delivery \<Rightarrow> ('k \<times> 'v) list list \<Rightarrow> ('k \<times> 'v) list" where
  "fanIn rt chans = rt (concat chans)"

text \<open>
  \<open>Iter\<close> and \<open>IterBuffered\<close> return the output channel of \<open>fanIn\<close>: the result is what
  its consumer receives until the channel is closed.
\<close>

definition Iter :: "('k \<times> 'v) runtime \<Rightarrow> int \<Rightarrow> ('k, 'v) ConcurrentMap \<Rightarrow> panic + ('k \<times> 'v) list" where
  "Iter rt SHARD_COUNT m =
     (case snapshot rt SHARD_COUNT m of
        Inl e \<Rightarrow> Inl e
      | Inr chans \<Rightarrow> Inr (fanIn (deliver rt) chans))"

definition IterBuffered :: "('k \<times> 'v) runtime \<Rightarrow> int \<Rightarrow> ('k, 'v) ConcurrentMap \<Rightarrow> panic + ('k \<times> 'v) list" where
  "IterBuffered rt SHARD_COUNT m =
     (case snapshot rt SHARD_COUNT m of
        Inl e \<Rightarrow> Inl e
      | Inr chans \<Rightarrow> Inr (fanIn (deliver rt) chans))"

text \<open>The loop \<open>for item := range m.IterBuffered()\<close> of \<open>Clear\<close>.\<close>

fun Clear_loop :: "int \<Rightarrow> ('k, 'v) ConcurrentMap \<Rightarrow> ('k \<times> 'v) list \<Rightarrow> panic + ('k, 'v) ConcurrentMap" where
  "Clear_loop SHARD_COUNT m [] = Inr m"
| "Clear_loop SHARD_COUNT m (item # rest) =
     (case Remove SHARD_COUNT m (fst item) of
        Inl e \<Rightarrow> Inl e
      | Inr m' \<Rightarrow> Clear_loop SHARD_COUNT m' rest)"

definition Clear :: "('k \<times> 'v) runtime \<Rightarrow> int \<Rightarrow> ('k, 'v) ConcurrentMap \<Rightarrow> panic + ('k, 'v) ConcurrentMap" where
  "Clear rt SHARD_COUNT m =
     (case IterBuffered rt SHARD_COUNT m of
        Inl e \<Rightarrow> Inl e
      | Inr ts \<Rightarrow> Clear_loop SHARD_COUNT m ts)"

text \<open>
  The loop \<open>for item := range m.IterBuffered() { tmp[item.Key] = item.Val }\<close> of \<open>Items\<close> and
  \<open>MarshalJSON\<close>.
\<close>

fun collect :: "('k \<times> 'v) list \<Rightarrow> ('k, 'v) gomap \<Rightarrow> ('k, 'v) gomap" where
  "collect [] tmp = tmp"
| "collect (item # rest) tmp = collect rest (go_store (fst item) (snd item) tmp)"

definition Items :: "('k \<times> 'v) runtime \<Rightarrow> int \<Rightarrow> ('k, 'v) ConcurrentMap \<Rightarrow> panic + ('k, 'v) gomap" where
  "Items rt SHARD_COUNT m =
     (case IterBuffered rt SHARD_COUNT m of
        Inl e \<Rightarrow> Inl e
      | Inr ts \<Rightarrow> Inr (collect ts []))"

text \<open>
  \<open>IterCb\<close> ranges over \<open>m.shards\<close> itself and calls \<open>fn\<close> on every entry; the effect of
  the callback is a step on a state of the caller's.
\<close>

definition IterCb ::
  "('k \<times> 'v) delivery \<Rightarrow> ('k, 'v) ConcurrentMap \<Rightarrow> ('k \<Rightarrow> 'v \<Rightarrow> 's \<Rightarrow> 's) \<Rightarrow> 's \<Rightarrow> panic + 's" where
  "IterCb rt m fn s =
     Inr (fold (\<lambda>item. fn (fst item) (snd item))
            (concat (map (\<lambda>shard. rt (go_range (items shard))) (shards m))) s)"

text \<open>
  The keys of all the shards, shard after shard.
\<close>

definition all_keys :: "('k, 'v) ConcurrentMap \<Rightarrow> 'k list" where
  "all_keys m = concat (map (\<lambda>shard. map fst (go_range (items shard))) (shards m))"

text \<open>
  \<open>Keys\<close> calls \<open>Count\<close> (which panics when the map has fewer shards than
  \<open>SHARD_COUNT\<close>), then sets a wait group to \<open>SHARD_COUNT\<close> (\<open>wg.Add\<close> panics on a
  negative value) and starts one goroutine per shard of the map, each sending the keys of
  its shard and then calling \<open>wg.Done()\<close>; the channel is closed when \<open>wg.Wait()\<close> is
  released, and the keys received until then are returned.
  \<^item> With as many shards as \<open>SHARD_COUNT\<close>, these are all the keys.
  \<^item> With more shards, \<open>wg.Wait()\<close> is released after \<open>SHARD_COUNT\<close> goroutines are done
    (at once when \<open>SHARD_COUNT\<close> is 0); a goroutine that calls \<open>wg.Done()\<close> after that
    panics, and so does one that still has a key to send once the channel is closed.
    Either the process ends before the caller has a result, or the caller has the keys
    that were sent in time, which need not be all of them: the delivery need not be
    fair then.
\<close>

definition Keys :: "'k runtime \<Rightarrow> int \<Rightarrow> ('k, 'v) ConcurrentMap \<Rightarrow> panic + 'k list" where
  "Keys rt SHARD_COUNT m =
     (case Count SHARD_COUNT m of
        Inl e \<Rightarrow> Inl e
      | Inr count' \<Rightarrow>
          if SHARD_COUNT < 0 then Inl NegativeWaitGroup
          else if nat SHARD_COUNT < length (shards m) then
            (case winner rt of
               CallerFirst \<Rightarrow> Inr (deliver rt (all_keys m))
             | GoroutineFirst \<Rightarrow> Inl NegativeWaitGroup
             | SenderFirst \<Rightarrow>
                 if all_keys m = [] then Inl NegativeWaitGroup else Inl SendOnClosedChannel)
          else Inr (deliver rt (all_keys m)))"

section \<open>JSON\<close>

text \<open>
  \<open>json.Marshal\<close> and \<open>json.Unmarshal\<close> belong to the library
  \<open>github.com/json-iterator/go\<close>; they are parameters: \<open>json_Marshal\<close> takes the
  temporary map to bytes or an error, \<open>json_Unmarshal\<close> takes bytes to a map or an error.
  \<open>MarshalJSON\<close> returns the bytes or the error of the encoder.
\<close>

definition MarshalJSON ::
  "(('k, 'v) gomap \<Rightarrow> 'e + 8 word list) \<Rightarrow> ('k \<times> 'v) runtime \<Rightarrow> int \<Rightarrow> ('k, 'v) ConcurrentMap
     \<Rightarrow> panic + ('e + 8 word list)" where
  "MarshalJSON json_Marshal rt SHARD_COUNT m =
     (case IterBuffered rt SHARD_COUNT m of
        Inl e \<Rightarrow> Inl e
      | Inr ts \<Rightarrow> Inr (json_Marshal (collect ts [])))"

text \<open>The loop \<open>for key, val := range tmp { m.Set(key, val) }\<close> of \<open>UnmarshalJSON\<close>.\<close>

fun Set_loop :: "int \<Rightarrow> ('k, 'v) ConcurrentMap \<Rightarrow> ('k \<times> 'v) list \<Rightarrow> panic + ('k, 'v) ConcurrentMap" where
  "Set_loop SHARD_COUNT m [] = Inr m"
| "Set_loop SHARD_COUNT m (entry # rest) =
     (case Set SHARD_COUNT m (fst entry) (snd entry) of
        Inl e \<Rightarrow> Inl e
      | Inr m' \<Rightarrow> Set_loop SHARD_COUNT m' rest)"

text \<open>
  \<open>UnmarshalJSON\<close> returns the map after the call and the error it returns (\<open>None\<close> for
  \<open>nil\<close>).
\<close>

definition UnmarshalJSON ::
  "(8 word list \<Rightarrow> 'e + ('k, 'v) gomap) \<Rightarrow> ('k \<times> 'v) delivery \<Rightarrow> int \<Rightarrow> ('k, 'v) ConcurrentMap
     \<Rightarrow> 8 word list \<Rightarrow> panic + (('k, 'v) ConcurrentMap \<times> 'e option)" where
  "UnmarshalJSON json_Unmarshal rt SHARD_COUNT m b =
     (case json_Unmarshal b of
        Inl err \<Rightarrow> Inr (m, Some err)
      | Inr tmp \<Rightarrow>
          (case Set_loop SHARD_COUNT m (rt (go_range tmp)) of
             Inl e \<Rightarrow> Inl e
           | Inr m' \<Rightarrow> Inr (m', None)))"

section \<open>Initialized maps\<close>

text \<open>
  A map is initialized for \<open>SHARD_COUNT\<close> when a factory has given it its sharding
  function and \<open>SHARD_COUNT\<close> shards, at least one (\<open>snapshot\<close> takes a map without
  shards for an uninitialized one), and \<open>SHARD_COUNT\<close> is the value in force.
\<close>

definition initialized :: "int \<Rightarrow> ('k, 'v) ConcurrentMap \<Rightarrow> bool" where
  "initialized SHARD_COUNT m =
     (0 < SHARD_COUNT \<and> go_int SHARD_COUNT \<and> length (shards m) = nat SHARD_COUNT \<and>
      sharding m \<noteq> None)"

text \<open>Every key a shard holds is a key that \<open>GetShard\<close> sends to that shard.\<close>

definition placed :: "int \<Rightarrow> ('k, 'v) ConcurrentMap \<Rightarrow> bool" where
  "placed SHARD_COUNT m =
     (\<forall>i < length (shards m). \<forall>k \<in> fst ` set (shard_items m i). GetShard SHARD_COUNT m k = Inr i)"

text \<open>What a reader of the whole map finds under a key: the binding in the shard of the key.\<close>

definition binding :: "int \<Rightarrow> ('k, 'v) ConcurrentMap \<Rightarrow> 'k \<Rightarrow> 'v option" where
  "binding SHARD_COUNT m key =
     (case GetShard SHARD_COUNT m key of
        Inl e \<Rightarrow> None
      | Inr shard \<Rightarrow> map_of (shard_items m shard) key)"

section \<open>Sequences of calls\<close>

text \<open>
  The mutating calls of the package, to speak of what holds of a key until a later call
  overwrites or removes it.
\<close>

datatype ('k, 'v) call =
    CallSet 'k 'v
  | CallMSet "('k \<times> 'v) delivery" "('k, 'v) gomap"
  | CallUpsert 'k 'v "'v UpsertCb"
  | CallSetIfAbsent 'k 'v
  | CallRemove 'k
  | CallRemoveCb 'k "('k, 'v) RemoveCb_fn"
  | CallPop 'k

fun apply_call :: "int \<Rightarrow> 'v \<Rightarrow> ('k, 'v) ConcurrentMap \<Rightarrow> ('k, 'v) call \<Rightarrow> panic + ('k, 'v) ConcurrentMap" where
  "apply_call SHARD_COUNT zeroV m (CallSet key value) = Set SHARD_COUNT m key value"
| "apply_call SHARD_COUNT zeroV m (CallMSet rt data) = MSet rt SHARD_COUNT m data"
| "apply_call SHARD_COUNT zeroV m (CallUpsert key value cb) =
     map_sum id fst (Upsert SHARD_COUNT zeroV m key value cb)"
| "apply_call SHARD_COUNT zeroV m (CallSetIfAbsent key value) =
     map_sum id fst (SetIfAbsent SHARD_COUNT zeroV m key value)"
| "apply_call SHARD_COUNT zeroV m (CallRemove key) = Remove SHARD_COUNT m key"
| "apply_call SHARD_COUNT zeroV m (CallRemoveCb key cb) =
     map_sum id fst (RemoveCb SHARD_COUNT zeroV m key cb)"
| "apply_call SHARD_COUNT zeroV m (CallPop key) = map_sum id fst (Pop SHARD_COUNT zeroV m key)"

fun run_calls :: "int \<Rightarrow> 'v \<Rightarrow> ('k, 'v) ConcurrentMap \<Rightarrow> ('k, 'v) call list \<Rightarrow> panic + ('k, 'v) ConcurrentMap" where
  "run_calls SHARD_COUNT zeroV m [] = Inr m"
| "run_calls SHARD_COUNT zeroV m (c # cs) =
     (case apply_call SHARD_COUNT zeroV m c of
        Inl e \<Rightarrow> Inl e
      | Inr m' \<Rightarrow> run_calls SHARD_COUNT zeroV m' cs)"

text \<open>The keys a call is made on.\<close>

fun targets :: "('k, 'v) call \<Rightarrow> 'k set" where
  "targets (CallSet key value) = {key}"
| "targets (CallMSet rt data) = fst ` set (rt (go_range data))"
| "targets (CallUpsert key value cb) = {key}"
| "targets (CallSetIfAbsent key value) = {key}"
| "targets (CallRemove key) = {key}"
| "targets (CallRemoveCb key cb) = {key}"
| "targets (CallPop key) = {key}"

section \<open>Inputs of the scenarios\<close>

text \<open>
  The callback of the upsert scenario: \<open>exist ? valueInMap + newValue : newValue\<close>.
\<close>

definition sum_cb :: "int UpsertCb" where
  "sum_cb exist valueInMap newValue = (if exist then valueInMap + newValue else newValue)"


fun pairs_Unmarshal :: "8 word list \<Rightarrow> string + (8 word, 8 word) gomap" where
  "pairs_Unmarshal [] = Inr []"
| "pairs_Unmarshal [k] = Inl ''unexpected end of input''"
| "pairs_Unmarshal (k # v # rest) = map_sum id (\<lambda>tmp. (k, v) # tmp) (pairs_Unmarshal rest)"

text \<open>Two runtimes: one delivers in order and lets the caller win, the other does neither.\<close>

definition in_order :: "'a runtime" where
  "in_order = \<lparr>deliver = (\<lambda>entries. entries), winner = CallerFirst\<rparr>"

definition reversed :: "'a runtime" where
  "reversed = \<lparr>deliver = rev, winner = GoroutineFirst\<rparr>"

text \<open>A sharding function on bytes, as \<open>directSharding\<close> of the benchmarks is on \<open>uint32\<close>.\<close>

definition byteSharding :: "8 word \<Rightarrow> 32 word" where
  "byteSharding key = ucast key"

text \<open>The map \<open>New[int]()\<close> returns while \<open>SHARD_COUNT\<close> is 32, its default.\<close>

definition fresh32 :: "(string, int) ConcurrentMap" where
  "fresh32 = \<lparr>shards = replicate 32 \<lparr>items = []\<rparr>, sharding = Some fnv32\<rparr>"

text \<open>That map after \<open>Set("a", 100)\<close>: the hash of \<open>"a"\<close> is 30 modulo 32.\<close>

definition with_a :: "(string, int) ConcurrentMap" where
  "with_a = put_items fresh32 30 [(''a'', 100)]"

text \<open>A map on bytes made by \<open>NewWithCustomShardingFunction\<close> while \<open>SHARD_COUNT\<close> is 4.\<close>

definition fresh_bytes :: "(8 word, 8 word) ConcurrentMap" where
  "fresh_bytes = \<lparr>shards = replicate 4 \<lparr>items = []\<rparr>, sharding = Some byteSharding\<rparr>"


section \<open>The hash\<close>

lemma of_char_lt_2p32: "(of_char c :: nat) < 2 ^ 32"
  by (rule less_trans [OF nat_of_char_less_256]) simp

lemma unat_of_char32: "unat (of_char c :: 32 word) = of_char c"
proof -
  have "(of_char c :: 32 word) = of_nat (of_char c)"
    by (simp add: of_nat_of_char)
  then have "unat (of_char c :: 32 word) = unat (of_nat (of_char c) :: 32 word)"
    by simp
  also have "\<dots> = of_char c"
    using of_char_lt_2p32 [of c] by (simp add: unat_of_nat)
  finally show ?thesis .
qed

lemma xor_lt_2p: "(a::nat) < 2 ^ n \<Longrightarrow> b < 2 ^ n \<Longrightarrow> a XOR b < 2 ^ n"
  by (metis take_bit_nat_eq_self take_bit_xor take_bit_nat_less_exp)

lemma spec_hash_step_unat:
  "unat ((h * prime32) XOR of_char c) = spec_hash_step (unat h) c"
proof -
  have m: "unat (h * prime32) = (unat h * 16777619) mod 2 ^ 32"
    by (simp add: prime32_def unat_word_ariths)
  have "unat ((h * prime32) XOR of_char c) = unat (h * prime32) XOR unat (of_char c :: 32 word)"
    by (simp add: unsigned_xor_eq)
  also have "\<dots> = ((unat h * 16777619) mod 2 ^ 32) XOR of_char c"
    by (simp only: m unat_of_char32)
  also have "\<dots> = spec_hash_step (unat h) c"
    unfolding spec_hash_step_def
    using xor_lt_2p [of "(unat h * 16777619) mod 2 ^ 32" 32 "of_char c"] of_char_lt_2p32 [of c]
    by simp
  finally show ?thesis .
qed

lemma fnv32_loop_spec: "unat (fnv32_loop key h) = foldl spec_hash_step (unat h) key"
  by (induction key arbitrary: h) (simp_all add: spec_hash_step_unat)

text \<open>
  C7. For every string, \<open>fnv32\<close> returns the 32-bit value obtained by starting from
  2166136261 and, for each byte in order, replacing the hash by
  \<open>(hash * 16777619) xor byte\<close>, all modulo \<open>2 ^ 32\<close>; and for every key with a
  \<open>String\<close> method, \<open>strfnv32\<close> returns \<open>fnv32\<close> of the key's string.
\<close>

theorem fnv32_is_spec_hash:
  "unat (fnv32 s) = spec_hash s \<and> strfnv32 String k = fnv32 (String k)"
  by (simp add: fnv32_def spec_hash_def fnv32_loop_spec strfnv32_def)

section \<open>Lookups after a store or a delete\<close>

lemma go_lookup_store:
  "go_lookup z (go_store k v al) k' = (if k' = k then (v, True) else go_lookup z al k')"
  by (simp add: go_lookup_def go_store_def update_conv')

lemma go_lookup_delete:
  "go_lookup z (go_delete k al) k' = (if k' = k then (z, False) else go_lookup z al k')"
  by (simp add: go_lookup_def go_delete_def delete_conv')

lemma go_lookup_absent: "\<not> snd (go_lookup z al k) \<Longrightarrow> fst (go_lookup z al k) = z"
  by (simp add: go_lookup_def split: option.splits)

section \<open>Routing in an initialized map\<close>

lemma go_uint_pos: "0 < sc \<Longrightarrow> go_int sc \<Longrightarrow> go_uint sc = nat sc"
  by (simp add: go_uint_def go_int_def)

lemma GetShard_initialized:
  assumes "initialized sc m"
  obtains i where "GetShard sc m k = Inr i" and "i < length (shards m)"
  using assms by (auto simp: initialized_def GetShard_def go_uint_pos split: option.splits)

lemma GetShard_bound: "GetShard sc m k = Inr i \<Longrightarrow> i < length (shards m)"
  by (auto simp: GetShard_def split: option.splits if_splits)

lemma GetShard_put_items: "GetShard sc (put_items m i its) k = GetShard sc m k"
  by (simp add: GetShard_def put_items_def split: option.splits)

lemma shard_items_put_items:
  "shard_items (put_items m i its) j =
     (if j = i \<and> i < length (shards m) then its else shard_items m j)"
  by (auto simp: shard_items_def put_items_def list_update_beyond)

lemma initialized_put_items: "initialized sc (put_items m i its) = initialized sc m"
  by (simp add: initialized_def put_items_def)

text \<open>\<open>Get\<close> after the inner map of the key's own shard, or of another shard, is replaced.\<close>

lemma Get_put_items:
  assumes "GetShard sc m k = Inr i"
  shows "Get sc z (put_items m j its) k =
           (if j = i then Inr (go_lookup z its k) else Get sc z m k)"
  using assms GetShard_bound [OF assms]
  by (simp add: Get_def GetShard_put_items shard_items_put_items)

lemma Get_initialized:
  assumes "initialized sc m"
  obtains v found where "Get sc z m k = Inr (v, found)"
  using GetShard_initialized [OF assms, of k]
  by (metis Get_def sum.simps(6) surj_pair)

section \<open>Single calls\<close>

lemma Set_initialized:
  assumes "initialized sc m"
  obtains m' where "Set sc m k v = Inr m'" and "initialized sc m'"
    and "Get sc z m' k = Inr (v, True)"
    and "\<And>k'. k' \<noteq> k \<Longrightarrow> Get sc z m' k' = Get sc z m k'"
proof -
  obtain i where i: "GetShard sc m k = Inr i"
    by (rule GetShard_initialized [OF assms])
  let ?m' = "put_items m i (go_store k v (shard_items m i))"
  have 1: "Set sc m k v = Inr ?m'"
    by (simp add: Set_def i)
  have 2: "initialized sc ?m'"
    by (simp add: initialized_put_items assms)
  have 3: "Get sc z ?m' k = Inr (v, True)"
    by (simp add: Get_put_items [OF i] go_lookup_store)
  have 4: "Get sc z ?m' k' = Get sc z m k'" if "k' \<noteq> k" for k'
  proof -
    obtain j where j: "GetShard sc m k' = Inr j"
      by (rule GetShard_initialized [OF assms])
    show ?thesis
      using that by (simp add: Get_put_items [OF j] go_lookup_store) (simp add: Get_def j)
  qed
  show thesis
    using that [OF 1 2 3 4] by blast
qed

lemma Remove_initialized:
  assumes "initialized sc m"
  obtains m' where "Remove sc m k = Inr m'" and "initialized sc m'"
    and "Get sc z m' k = Inr (z, False)"
    and "\<And>k'. k' \<noteq> k \<Longrightarrow> Get sc z m' k' = Get sc z m k'"
proof -
  obtain i where i: "GetShard sc m k = Inr i"
    by (rule GetShard_initialized [OF assms])
  let ?m' = "put_items m i (go_delete k (shard_items m i))"
  have 1: "Remove sc m k = Inr ?m'"
    by (simp add: Remove_def i)
  have 2: "initialized sc ?m'"
    by (simp add: initialized_put_items assms)
  have 3: "Get sc z ?m' k = Inr (z, False)"
    by (simp add: Get_put_items [OF i] go_lookup_delete)
  have 4: "Get sc z ?m' k' = Get sc z m k'" if "k' \<noteq> k" for k'
  proof -
    obtain j where j: "GetShard sc m k' = Inr j"
      by (rule GetShard_initialized [OF assms])
    show ?thesis
      using that by (simp add: Get_put_items [OF j] go_lookup_delete) (simp add: Get_def j)
  qed
  show thesis
    using that [OF 1 2 3 4] by blast
qed

text \<open>The calls that read the binding first are a \<open>Set\<close>, a \<open>Remove\<close> or nothing.\<close>

lemma Upsert_as_Set:
  assumes "Get sc z m k = Inr (v, found)"
  shows "Upsert sc z m k value cb =
           map_sum id (\<lambda>m'. (m', cb found v value)) (Set sc m k (cb found v value))"
  using assms by (auto simp: Upsert_def Set_def Get_def Let_def split: sum.splits)

lemma SetIfAbsent_as_Set:
  assumes "Get sc z m k = Inr (v, found)"
  shows "SetIfAbsent sc z m k value =
           (if found then Inr (m, False) else map_sum id (\<lambda>m'. (m', True)) (Set sc m k value))"
  using assms by (auto simp: SetIfAbsent_def Set_def Get_def split: sum.splits)

lemma RemoveCb_as_Remove:
  assumes "Get sc z m k = Inr (v, found)"
  shows "RemoveCb sc z m k cb =
           (if cb k v found \<and> found then map_sum id (\<lambda>m'. (m', True)) (Remove sc m k)
            else Inr (m, cb k v found))"
  using assms by (auto simp: RemoveCb_def Remove_def Get_def Let_def split: sum.splits)

lemma Pop_as_Remove:
  assumes "Get sc z m k = Inr (v, found)"
  shows "Pop sc z m k = map_sum id (\<lambda>m'. (m', v, found)) (Remove sc m k)"
  using assms by (auto simp: Pop_def Remove_def Get_def split: sum.splits)

lemma Get_absent_zero: "Get sc z m k = Inr (v, False) \<Longrightarrow> v = z"
  by (auto simp: Get_def go_lookup_def split: sum.splits option.splits)

lemma Get_found_or_zero: "Get sc z m k = Inr (v, found) \<Longrightarrow> found \<or> v = z"
  by (cases found) (auto dest: Get_absent_zero)

section \<open>Calls on a single key\<close>

lemma initialized_fresh32: "initialized 32 fresh32"
  by (simp add: initialized_def fresh32_def go_int_def)

lemma New_32: "New 32 = Inr fresh32"
  by (simp add: New_def create_def fresh32_def)

lemma GetShard_fresh32_x: "GetShard 32 fresh32 ''x'' = Inr 7"
  by (simp add: GetShard_def fresh32_def go_uint_def fnv32_def prime32_def)

lemma Get_fresh32_x: "Get 32 0 fresh32 ''x'' = Inr (0, False)"
  by (simp add: Get_def GetShard_fresh32_x) (simp add: shard_items_def fresh32_def go_lookup_def)

text \<open>
  C3. On an initialized map, \<open>Upsert(k, value, cb)\<close> computes
  \<open>res = cb(found, v, value)\<close> from the binding \<open>(v, found)\<close> that \<open>k\<close> had (the zero
  value of \<open>V\<close> when absent), stores \<open>res\<close> under \<open>k\<close> and returns it; and two calls
  \<open>Upsert("x", 1, cb)\<close> with \<open>cb\<close> returning \<open>exist ? valueInMap + newValue : newValue\<close>,
  on a map without \<open>"x"\<close>, leave 2 under \<open>"x"\<close>.
\<close>

theorem Upsert_combines:
  assumes "initialized sc m" and "initialized sc' mx" and "Get sc' 0 mx ''x'' = Inr (0, False)"
  shows "(\<exists>v found m'. Get sc z m k = Inr (v, found) \<and> (found \<or> v = z) \<and>
            Upsert sc z m k value cb = Inr (m', cb found v value) \<and>
            Get sc z m' k = Inr (cb found v value, True)) \<and>
         (\<exists>m1 m2. Upsert sc' 0 mx ''x'' 1 sum_cb = Inr (m1, 1) \<and>
            Upsert sc' 0 m1 ''x'' 1 sum_cb = Inr (m2, 2) \<and>
            Get sc' 0 m2 ''x'' = Inr (2, True))"
proof
  obtain v found where g: "Get sc z m k = Inr (v, found)"
    by (rule Get_initialized [OF assms(1)])
  obtain m' where s: "Set sc m k (cb found v value) = Inr m'"
    and g': "Get sc z m' k = Inr (cb found v value, True)"
    by (rule Set_initialized [OF assms(1)])
  have "Upsert sc z m k value cb = Inr (m', cb found v value)"
    by (simp add: Upsert_as_Set [OF g] s)
  with g g' Get_found_or_zero [OF g]
  show "\<exists>v found m'. Get sc z m k = Inr (v, found) \<and> (found \<or> v = z) \<and>
            Upsert sc z m k value cb = Inr (m', cb found v value) \<and>
            Get sc z m' k = Inr (cb found v value, True)"
    by blast
next
  obtain m1 where s1: "Set sc' mx ''x'' 1 = Inr m1" and i1: "initialized sc' m1"
    and g1: "Get sc' 0 m1 ''x'' = Inr (1, True)"
    by (rule Set_initialized [OF assms(2)])
  obtain m2 where s2: "Set sc' m1 ''x'' 2 = Inr m2"
    and g2: "Get sc' 0 m2 ''x'' = Inr (2, True)"
    by (rule Set_initialized [OF i1])
  have u1: "Upsert sc' 0 mx ''x'' 1 sum_cb = Inr (m1, 1)"
    by (simp add: Upsert_as_Set [OF assms(3)] sum_cb_def s1)
  have u2: "Upsert sc' 0 m1 ''x'' 1 sum_cb = Inr (m2, 2)"
    by (simp add: Upsert_as_Set [OF g1] sum_cb_def s2)
  from u1 u2 g2
  show "\<exists>m1 m2. Upsert sc' 0 mx ''x'' 1 sum_cb = Inr (m1, 1) \<and>
            Upsert sc' 0 m1 ''x'' 1 sum_cb = Inr (m2, 2) \<and>
            Get sc' 0 m2 ''x'' = Inr (2, True)"
    by blast
qed

theorem Upsert_combines_witness:
  "initialized 32 fresh32 \<and> Get 32 0 fresh32 ''x'' = Inr (0, False) \<and>
   (\<exists>m1 m2. Upsert 32 0 fresh32 ''x'' 1 sum_cb = Inr (m1, 1) \<and>
      Upsert 32 0 m1 ''x'' 1 sum_cb = Inr (m2, 2) \<and>
      Get 32 0 m2 ''x'' = Inr (2, True))"
  using Upsert_combines [OF initialized_fresh32 initialized_fresh32 Get_fresh32_x]
    initialized_fresh32 Get_fresh32_x
  by blast

text \<open>
  C5. On an initialized map, \<open>SetIfAbsent(k, value)\<close> returns true exactly when \<open>k\<close> was
  absent, and then \<open>value\<close> is stored under \<open>k\<close>; when \<open>k\<close> was present it returns false
  and the map, with the value bound to \<open>k\<close>, is unchanged.
\<close>

theorem SetIfAbsent_iff_absent:
  assumes "initialized sc m"
  shows "\<exists>v found m'. Get sc z m k = Inr (v, found) \<and>
           SetIfAbsent sc z m k value = Inr (m', \<not> found) \<and>
           Get sc z m' k = Inr (if found then v else value, True) \<and>
           (found \<longrightarrow> m' = m)"
proof -
  obtain v found where g: "Get sc z m k = Inr (v, found)"
    by (rule Get_initialized [OF assms])
  show ?thesis
  proof (cases found)
    case True
    with g have "SetIfAbsent sc z m k value = Inr (m, \<not> found)"
      by (simp add: SetIfAbsent_as_Set [OF g])
    with g True show ?thesis by auto
  next
    case False
    obtain m' where s: "Set sc m k value = Inr m'" and g': "Get sc z m' k = Inr (value, True)"
      by (rule Set_initialized [OF assms])
    have "SetIfAbsent sc z m k value = Inr (m', \<not> found)"
      using False by (simp add: SetIfAbsent_as_Set [OF g] s)
    with g g' False show ?thesis by auto
  qed
qed

text \<open>
  C6. On an initialized map, \<open>RemoveCb(k, cb)\<close> computes \<open>cb(k, v, found)\<close> on the binding
  of \<open>k\<close> (the zero value of \<open>V\<close> when absent), deletes \<open>k\<close> exactly when that is true
  and \<open>k\<close> was found, and returns what the callback returned, also when \<open>k\<close> was absent.
\<close>

theorem RemoveCb_removes_iff:
  assumes "initialized sc m"
  shows "\<exists>v found m'. Get sc z m k = Inr (v, found) \<and> (found \<or> v = z) \<and>
           RemoveCb sc z m k cb = Inr (m', cb k v found) \<and>
           (if cb k v found \<and> found
            then Remove sc m k = Inr m' \<and> Get sc z m' k = Inr (z, False)
            else m' = m)"
proof -
  obtain v found where g: "Get sc z m k = Inr (v, found)"
    by (rule Get_initialized [OF assms])
  note fz = Get_found_or_zero [OF g]
  show ?thesis
  proof (cases "cb k v found \<and> found")
    case True
    obtain m' where r: "Remove sc m k = Inr m'" and g': "Get sc z m' k = Inr (z, False)"
      by (rule Remove_initialized [OF assms])
    from True have c: "cb k v found" and f: "found"
      by blast+
    have "RemoveCb sc z m k cb = Inr (m', cb k v found)"
      using c f by (simp add: RemoveCb_as_Remove [OF g] r)
    with g fz r g' True show ?thesis by auto
  next
    case False
    have "RemoveCb sc z m k cb = Inr (m, cb k v found)"
      by (simp only: RemoveCb_as_Remove [OF g] if_not_P [OF False])
    with g fz False show ?thesis by auto
  qed
qed

lemma Get_fresh32_key: "Get 32 0 fresh32 ''key'' = Inr (0, False)"
  by (simp add: Get_def GetShard_def go_uint_def fnv32_def prime32_def fresh32_def
      shard_items_def go_lookup_def)

theorem SetIfAbsent_iff_absent_witness:
  "initialized 32 fresh32 \<and>
   (\<exists>m'. SetIfAbsent 32 0 fresh32 ''key'' 100 = Inr (m', True) \<and>
      Get 32 0 m' ''key'' = Inr (100, True))"
  using SetIfAbsent_iff_absent [OF initialized_fresh32, of 0 "''key''" 100]
    initialized_fresh32 Get_fresh32_key
  by auto

theorem RemoveCb_removes_iff_witness:
  "initialized 32 fresh32 \<and>
   RemoveCb 32 0 fresh32 ''key'' (\<lambda>key v exists. True) = Inr (fresh32, True)"
  using RemoveCb_removes_iff [OF initialized_fresh32, of 0 "''key''" "\<lambda>key v exists. True"]
    initialized_fresh32 Get_fresh32_key
  by auto

text \<open>
  C10. On an initialized map and for keys \<open>k' \<noteq> k\<close>, each of \<open>Set(k, v)\<close>, \<open>Remove(k)\<close>,
  \<open>Pop(k)\<close>, \<open>SetIfAbsent(k, v)\<close> and \<open>Upsert(k, v, cb)\<close> returns, and \<open>Get(k')\<close> returns
  after it what it returned before.
\<close>

theorem other_keys_unchanged:
  assumes "initialized sc m" and "k' \<noteq> k"
  shows "(\<exists>m'. Set sc m k v = Inr m' \<and> Get sc z m' k' = Get sc z m k') \<and>
         (\<exists>m'. Remove sc m k = Inr m' \<and> Get sc z m' k' = Get sc z m k') \<and>
         (\<exists>m' r. Pop sc z m k = Inr (m', r) \<and> Get sc z m' k' = Get sc z m k') \<and>
         (\<exists>m' r. SetIfAbsent sc z m k v = Inr (m', r) \<and> Get sc z m' k' = Get sc z m k') \<and>
         (\<exists>m' r. Upsert sc z m k v cb = Inr (m', r) \<and> Get sc z m' k' = Get sc z m k')"
proof -
  obtain old found where g: "Get sc z m k = Inr (old, found)"
    by (rule Get_initialized [OF assms(1)])
  obtain ms where s: "Set sc m k v = Inr ms"
    and fs: "Get sc z ms k' = Get sc z m k'"
    using Set_initialized [OF assms(1), of k v z] assms(2) by metis
  obtain mu where u: "Set sc m k (cb found old v) = Inr mu"
    and fu: "Get sc z mu k' = Get sc z m k'"
    using Set_initialized [OF assms(1), of k "cb found old v" z] assms(2) by metis
  obtain mr where r: "Remove sc m k = Inr mr"
    and fr: "Get sc z mr k' = Get sc z m k'"
    using Remove_initialized [OF assms(1), of k z] assms(2) by metis
  have 1: "\<exists>m'. Set sc m k v = Inr m' \<and> Get sc z m' k' = Get sc z m k'"
    using s fs by blast
  have 2: "\<exists>m'. Remove sc m k = Inr m' \<and> Get sc z m' k' = Get sc z m k'"
    using r fr by blast
  have 3: "\<exists>m' r. Pop sc z m k = Inr (m', r) \<and> Get sc z m' k' = Get sc z m k'"
    using fr by (simp add: Pop_as_Remove [OF g] r)
  have 4: "\<exists>m' r. SetIfAbsent sc z m k v = Inr (m', r) \<and> Get sc z m' k' = Get sc z m k'"
    using fs by (auto simp: SetIfAbsent_as_Set [OF g] s)
  have 5: "\<exists>m' r. Upsert sc z m k v cb = Inr (m', r) \<and> Get sc z m' k' = Get sc z m k'"
    using fu by (simp add: Upsert_as_Set [OF g] u)
  from 1 2 3 4 5 show ?thesis by blast
qed

lemma fnv32_a: "fnv32 ''a'' = 84696446"
  by (simp add: fnv32_def prime32_def)

lemma Set_fresh32_a: "Set 32 fresh32 ''a'' 100 = Inr with_a"
  by (simp add: Set_def GetShard_def fresh32_def fnv32_a go_uint_def with_a_def)
     (simp add: shard_items_def go_store_def)

lemma shards_with_a: "shards with_a = (replicate 32 \<lparr>items = []\<rparr>)[30 := \<lparr>items = [(''a'', 100)]\<rparr>]"
  by (simp add: with_a_def put_items_def fresh32_def)

lemma sharding_with_a: "sharding with_a = Some fnv32"
  by (simp add: with_a_def put_items_def fresh32_def)

lemma initialized_with_a: "initialized 32 with_a"
  by (simp add: with_a_def initialized_put_items initialized_fresh32)

lemma GetShard_with_a: "GetShard 32 with_a ''a'' = Inr 30"
  by (simp add: GetShard_def sharding_with_a shards_with_a fnv32_a go_uint_def)

lemma Get_with_a: "Get 32 0 with_a ''a'' = Inr (100, True)"
  by (simp add: Get_def GetShard_with_a shard_items_def shards_with_a go_lookup_def)

lemma GetShard_with_a_A: "GetShard 32 with_a ''A'' = Inr 30"
  by (simp add: GetShard_def sharding_with_a shards_with_a fnv32_def prime32_def go_uint_def)

text \<open>
  The keys \<open>"A"\<close> and \<open>"a"\<close> share shard 30 of the map, so each call on \<open>"A"\<close> rewrites
  the inner map that holds the binding of \<open>"a"\<close>.
\<close>

theorem other_keys_unchanged_witness:
  "initialized 32 with_a \<and> ''a'' \<noteq> ''A'' \<and>
   GetShard 32 with_a ''A'' = Inr 30 \<and> GetShard 32 with_a ''a'' = Inr 30 \<and>
   Get 32 0 with_a ''a'' = Inr (100, True) \<and>
   (\<exists>m'. Set 32 with_a ''A'' 7 = Inr m' \<and> Get 32 0 m' ''a'' = Inr (100, True)) \<and>
   (\<exists>m'. Remove 32 with_a ''A'' = Inr m' \<and> Get 32 0 m' ''a'' = Inr (100, True)) \<and>
   (\<exists>m' r. Pop 32 0 with_a ''A'' = Inr (m', r) \<and> Get 32 0 m' ''a'' = Inr (100, True)) \<and>
   (\<exists>m' r. SetIfAbsent 32 0 with_a ''A'' 7 = Inr (m', r) \<and>
      Get 32 0 m' ''a'' = Inr (100, True)) \<and>
   (\<exists>m' r. Upsert 32 0 with_a ''A'' 7 sum_cb = Inr (m', r) \<and>
      Get 32 0 m' ''a'' = Inr (100, True))"
proof -
  have ne: "''a'' \<noteq> ''A''" by simp
  show ?thesis
    using other_keys_unchanged [OF initialized_with_a ne, of 7 0 sum_cb]
      initialized_with_a ne Get_with_a GetShard_with_a GetShard_with_a_A
    by (simp only: Get_with_a) blast
qed

section \<open>A key across later calls\<close>

lemma MSet_loop_as_Set:
  "MSet_loop sc m (entry # rest) =
     (case Set sc m (fst entry) (snd entry) of Inl e \<Rightarrow> Inl e | Inr m' \<Rightarrow> MSet_loop sc m' rest)"
  by (simp add: Set_def split: sum.splits)

lemma Set_frame:
  assumes "initialized sc m" and "k' \<noteq> k"
  obtains m' where "Set sc m k v = Inr m'" and "initialized sc m'"
    and "Get sc z m' k' = Get sc z m k'"
  using Set_initialized [OF assms(1), of k v z] assms(2) by metis

lemma Remove_frame:
  assumes "initialized sc m" and "k' \<noteq> k"
  obtains m' where "Remove sc m k = Inr m'" and "initialized sc m'"
    and "Get sc z m' k' = Get sc z m k'"
  using Remove_initialized [OF assms(1), of k z] assms(2) by metis

lemma MSet_loop_frame:
  assumes "initialized sc m" and "k \<notin> fst ` set es"
  shows "\<exists>m'. MSet_loop sc m es = Inr m' \<and> initialized sc m' \<and> Get sc z m' k = Get sc z m k"
  using assms
proof (induction es arbitrary: m)
  case Nil
  then show ?case by simp
next
  case (Cons entry rest)
  from Cons.prems(2) have ne: "k \<noteq> fst entry" and rest: "k \<notin> fst ` set rest"
    by auto
  obtain m1 where s: "Set sc m (fst entry) (snd entry) = Inr m1" and i1: "initialized sc m1"
    and f1: "Get sc z m1 k = Get sc z m k"
    by (rule Set_frame [OF Cons.prems(1) ne])
  from Cons.IH [OF i1 rest] f1 show ?case
    by (simp only: MSet_loop_as_Set s sum.case)
qed

lemma apply_call_frame:
  assumes "initialized sc m" and "k \<notin> targets c"
  shows "\<exists>m'. apply_call sc z m c = Inr m' \<and> initialized sc m' \<and> Get sc z m' k = Get sc z m k"
proof (cases c)
  case (CallSet key val)
  with assms(2) have ne: "k \<noteq> key" by simp
  obtain m1 where "Set sc m key val = Inr m1" and "initialized sc m1"
    and "Get sc z m1 k = Get sc z m k"
    by (rule Set_frame [OF assms(1) ne])
  with CallSet show ?thesis by simp
next
  case (CallMSet rt data)
  with assms(2) have "k \<notin> fst ` set (rt (go_range data))" by simp
  from MSet_loop_frame [OF assms(1) this] CallMSet show ?thesis
    by (simp add: MSet_def)
next
  case (CallUpsert key val cb)
  with assms(2) have ne: "k \<noteq> key" by simp
  obtain old found where g: "Get sc z m key = Inr (old, found)"
    by (rule Get_initialized [OF assms(1)])
  obtain m1 where "Set sc m key (cb found old val) = Inr m1" and "initialized sc m1"
    and "Get sc z m1 k = Get sc z m k"
    by (rule Set_frame [OF assms(1) ne])
  with CallUpsert show ?thesis by (simp add: Upsert_as_Set [OF g])
next
  case (CallSetIfAbsent key val)
  with assms(2) have ne: "k \<noteq> key" by simp
  obtain old found where g: "Get sc z m key = Inr (old, found)"
    by (rule Get_initialized [OF assms(1)])
  obtain m1 where "Set sc m key val = Inr m1" and "initialized sc m1"
    and "Get sc z m1 k = Get sc z m k"
    by (rule Set_frame [OF assms(1) ne])
  with CallSetIfAbsent assms(1) show ?thesis by (simp add: SetIfAbsent_as_Set [OF g])
next
  case (CallRemove key)
  with assms(2) have ne: "k \<noteq> key" by simp
  obtain m1 where "Remove sc m key = Inr m1" and "initialized sc m1"
    and "Get sc z m1 k = Get sc z m k"
    by (rule Remove_frame [OF assms(1) ne])
  with CallRemove show ?thesis by simp
next
  case (CallRemoveCb key cb)
  with assms(2) have ne: "k \<noteq> key" by simp
  obtain old found where g: "Get sc z m key = Inr (old, found)"
    by (rule Get_initialized [OF assms(1)])
  obtain m1 where "Remove sc m key = Inr m1" and "initialized sc m1"
    and "Get sc z m1 k = Get sc z m k"
    by (rule Remove_frame [OF assms(1) ne])
  with CallRemoveCb assms(1) show ?thesis by (simp add: RemoveCb_as_Remove [OF g])
next
  case (CallPop key)
  with assms(2) have ne: "k \<noteq> key" by simp
  obtain old found where g: "Get sc z m key = Inr (old, found)"
    by (rule Get_initialized [OF assms(1)])
  obtain m1 where "Remove sc m key = Inr m1" and "initialized sc m1"
    and "Get sc z m1 k = Get sc z m k"
    by (rule Remove_frame [OF assms(1) ne])
  with CallPop show ?thesis by (simp add: Pop_as_Remove [OF g])
qed

lemma run_calls_frame:
  assumes "initialized sc m" and "\<forall>c \<in> set cs. k \<notin> targets c"
  shows "\<exists>m'. run_calls sc z m cs = Inr m' \<and> initialized sc m' \<and> Get sc z m' k = Get sc z m k"
  using assms
proof (induction cs arbitrary: m)
  case Nil
  then show ?case by simp
next
  case (Cons c cs)
  from Cons.prems(2) have c: "k \<notin> targets c" and cs: "\<forall>c \<in> set cs. k \<notin> targets c"
    by auto
  obtain m1 where a: "apply_call sc z m c = Inr m1" and i1: "initialized sc m1"
    and f1: "Get sc z m1 k = Get sc z m k"
    using apply_call_frame [OF Cons.prems(1) c] by blast
  from Cons.IH [OF i1 cs] f1 show ?case
    by (simp add: a)
qed

text \<open>
  C4. On an initialized map, after \<open>Set(k, v)\<close> the call \<open>Get(k)\<close> returns \<open>(v, true)\<close>, and
  it still does after any sequence of calls none of which is made on \<open>k\<close>; and after
  \<open>Remove(k)\<close> (made at once, or after those calls) \<open>Get(k)\<close> returns not found.
\<close>

theorem Set_then_Get_until_overwritten:
  assumes "initialized sc m" and "\<forall>c \<in> set cs. k \<notin> targets c"
  shows "\<exists>m1 m2 m3 m4. Set sc m k v = Inr m1 \<and> Get sc z m1 k = Inr (v, True) \<and>
           run_calls sc z m1 cs = Inr m2 \<and> Get sc z m2 k = Inr (v, True) \<and>
           Remove sc m2 k = Inr m3 \<and> Get sc z m3 k = Inr (z, False) \<and>
           Remove sc m k = Inr m4 \<and> Get sc z m4 k = Inr (z, False)"
proof -
  obtain m1 where s: "Set sc m k v = Inr m1" and i1: "initialized sc m1"
    and g1: "Get sc z m1 k = Inr (v, True)"
    by (rule Set_initialized [OF assms(1)])
  obtain m2 where r: "run_calls sc z m1 cs = Inr m2" and i2: "initialized sc m2"
    and g2: "Get sc z m2 k = Get sc z m1 k"
    using run_calls_frame [OF i1 assms(2)] by blast
  obtain m3 where r3: "Remove sc m2 k = Inr m3" and g3: "Get sc z m3 k = Inr (z, False)"
    by (rule Remove_initialized [OF i2])
  obtain m4 where r4: "Remove sc m k = Inr m4" and g4: "Get sc z m4 k = Inr (z, False)"
    by (rule Remove_initialized [OF assms(1)])
  from s g1 r g2 r3 g3 r4 g4 show ?thesis
    by auto
qed

theorem Set_then_Get_until_overwritten_witness:
  "initialized 32 fresh32 \<and>
   (\<exists>m1 m2 m3. Set 32 fresh32 ''key'' 100 = Inr m1 \<and> Get 32 0 m1 ''key'' = Inr (100, True) \<and>
      run_calls 32 0 m1 [CallSet ''a'' 1, CallUpsert ''x'' 1 sum_cb, CallRemove ''a''] = Inr m2 \<and>
      Get 32 0 m2 ''key'' = Inr (100, True) \<and>
      Remove 32 m2 ''key'' = Inr m3 \<and> Get 32 0 m3 ''key'' = Inr (0, False))"
proof -
  have h: "\<forall>c \<in> set [CallSet ''a'' 1, CallUpsert ''x'' 1 sum_cb, CallRemove ''a''].
             ''key'' \<notin> targets c"
    by simp
  show ?thesis
    using Set_then_Get_until_overwritten [OF initialized_fresh32 h, of 100 0] initialized_fresh32
    by blast
qed

section \<open>Decoding errors\<close>

text \<open>
  C9. Whenever \<open>UnmarshalJSON(b)\<close> returns a non-nil error, the map is what it was before
  the call: the error is the decoder's, and no key is set before the whole input has
  been decoded.
\<close>

theorem UnmarshalJSON_error_keeps_map:
  "(UnmarshalJSON json_Unmarshal rt sc m b = Inr (m', Some err)
      \<longrightarrow> m' = m \<and> json_Unmarshal b = Inl err) \<and>
   (json_Unmarshal b = Inl err
      \<longrightarrow> UnmarshalJSON json_Unmarshal rt sc m b = Inr (m, Some err))"
  by (auto simp: UnmarshalJSON_def split: sum.splits)

theorem UnmarshalJSON_error_keeps_map_witness:
  "pairs_Unmarshal [1, 2, 3] = Inl ''unexpected end of input'' \<and>
   UnmarshalJSON pairs_Unmarshal (\<lambda>entries. entries) 4 fresh_bytes [1, 2, 3] =
     Inr (fresh_bytes, Some ''unexpected end of input'')"
proof -
  have d: "pairs_Unmarshal [1, 2, 3] = Inl ''unexpected end of input''"
    by simp
  from UnmarshalJSON_error_keeps_map
    [of pairs_Unmarshal "\<lambda>entries. entries" 4 fresh_bytes "[1, 2, 3]" fresh_bytes
        "''unexpected end of input''"] d
  show ?thesis by blast
qed

section \<open>The zero value\<close>

lemma GetShard_zero_value: "GetShard sc zero_value k = Inl NilDereference"
  by (simp add: GetShard_def zero_value_def)

lemma snapshot_zero_value: "snapshot rt sc zero_value = Inl NotInitialized"
  by (simp add: snapshot_def zero_value_def)

lemma Count_zero_value: "0 < sc \<Longrightarrow> Count sc zero_value = Inl IndexOutOfRange"
proof -
  assume "0 < sc"
  then have "[0..<nat sc] = 0 # [1..<nat sc]"
    by (simp add: upt_conv_Cons)
  then show ?thesis
    by (simp add: Count_def zero_value_def)
qed

text \<open>
  What the keyed operations, \<open>Count\<close> and \<open>IterCb\<close> do on the zero value of a map of
  integers under strings: none of them panics with the message of \<open>snapshot\<close>.
\<close>

theorem zero_value_counterexample:
  "Set 32 (zero_value :: (string, int) ConcurrentMap) ''key'' 100 = Inl NilDereference \<and>
   Get 32 0 (zero_value :: (string, int) ConcurrentMap) ''key'' = Inl NilDereference \<and>
   Get 32 0 (zero_value :: (string, int) ConcurrentMap) ''key'' \<noteq> Inl NotInitialized \<and>
   Count 32 (zero_value :: (string, int) ConcurrentMap) = Inl IndexOutOfRange \<and>
   Count 0 (zero_value :: (string, int) ConcurrentMap) = Inr 0 \<and>
   IterCb (\<lambda>entries. entries) (zero_value :: (string, int) ConcurrentMap)
     (\<lambda>key v seen. key # seen) [] = Inr []"
  by (simp add: Set_def Get_def GetShard_zero_value Count_zero_value)
     (simp add: Count_def IterCb_def zero_value_def)

text \<open>
  C2, as the code has it. On a zero-value map the operations that go through \<open>snapshot\<close>
  (\<open>Iter\<close>, \<open>IterBuffered\<close>, \<open>Items\<close>, \<open>Clear\<close>, \<open>MarshalJSON\<close>) abort with the panic
  that says the map is not initialized; the keyed operations abort too, with the
  runtime's panic for the call of the nil sharding function; \<open>Count\<close>, \<open>IsEmpty\<close> and
  \<open>Keys\<close> abort with an index out of range while \<open>SHARD_COUNT\<close> is positive.
\<close>

theorem zero_value_panics:
  assumes "m = zero_value"
  shows "Iter rt sc m = Inl NotInitialized \<and>
   IterBuffered rt sc m = Inl NotInitialized \<and>
   Items rt sc m = Inl NotInitialized \<and>
   Clear rt sc m = Inl NotInitialized \<and>
   MarshalJSON json_Marshal rt sc m = Inl NotInitialized \<and>
   Set sc m k v = Inl NilDereference \<and>
   Get sc z m k = Inl NilDereference \<and>
   Has sc z m k = Inl NilDereference \<and>
   Remove sc m k = Inl NilDereference \<and>
   Pop sc z m k = Inl NilDereference \<and>
   Upsert sc z m k v cb = Inl NilDereference \<and>
   SetIfAbsent sc z m k v = Inl NilDereference \<and>
   RemoveCb sc z m k rcb = Inl NilDereference \<and>
   (0 < sc \<longrightarrow> Count sc m = Inl IndexOutOfRange \<and>
      IsEmpty sc m = Inl IndexOutOfRange \<and>
      Keys krt sc m = Inl IndexOutOfRange)"
  unfolding assms
  by (simp add: Iter_def IterBuffered_def Items_def Clear_def MarshalJSON_def
      snapshot_zero_value Set_def Get_def Has_def Remove_def Pop_def Upsert_def
      SetIfAbsent_def RemoveCb_def GetShard_zero_value Count_zero_value IsEmpty_def Keys_def)

theorem zero_value_panics_witness:
  "(0::int) < 32 \<and>
   Iter in_order 32 (zero_value :: (string, int) ConcurrentMap) = Inl NotInitialized \<and>
   Set 32 (zero_value :: (string, int) ConcurrentMap) ''key'' 100 = Inl NilDereference \<and>
   Count 32 (zero_value :: (string, int) ConcurrentMap) = Inl IndexOutOfRange"
  using zero_value_panics
    [where m = "zero_value :: (string, int) ConcurrentMap" and sc = 32 and k = "''key''"
       and v = 100 and rt = in_order and z = 0 and cb = sum_cb
       and rcb = "\<lambda>key v exists. True" and krt = in_order
       and json_Marshal = "\<lambda>tmp. Inr [] :: unit + 8 word list", OF refl]
  by simp

section \<open>The shard count in force\<close>

lemma Count_loop_sum:
  assumes "\<forall>i \<in> set is. i < length (shards m)"
  shows "Count_loop m is c = Inr (c + (\<Sum>i\<leftarrow>is. int (go_len (shard_items m i))))"
  using assms by (induction "is" arbitrary: c) simp_all

lemma Count_within:
  assumes "nat sc \<le> length (shards m)"
  shows "Count sc m = Inr (\<Sum>shard\<leftarrow>take (nat sc) (shards m). int (go_len (items shard)))"
proof -
  have "\<forall>i \<in> set [0..<nat sc]. i < length (shards m)"
    using assms by simp
  then have "Count sc m = Inr (\<Sum>i\<leftarrow>[0..<nat sc]. int (go_len (shard_items m i)))"
    by (simp add: Count_def Count_loop_sum)
  also have "map (\<lambda>i. int (go_len (shard_items m i))) [0..<nat sc] =
             map (\<lambda>shard. int (go_len (items shard))) (take (nat sc) (shards m))"
    using assms by (auto simp: list_eq_iff_nth_eq shard_items_def)
  finally show ?thesis .
qed

lemma Count_beyond:
  assumes "length (shards m) < nat sc"
  shows "Count sc m = Inl IndexOutOfRange"
proof -
  have split: "[0..<nat sc] = [0..<length (shards m)] @ length (shards m) # [Suc (length (shards m))..<nat sc]"
    using assms by (metis less_imp_le_nat upt_add_eq_append upt_conv_Cons le0 le_add_diff_inverse)
  have loop: "Count_loop m (is @ j # rest) c = Inl IndexOutOfRange"
    if "\<forall>i \<in> set is. i < length (shards m)" and "\<not> j < length (shards m)" for "is" j rest c
    using that by (induction "is" arbitrary: c) simp_all
  show ?thesis
    unfolding Count_def split by (rule loop) simp_all
qed

lemma Count_initialized:
  assumes "initialized sc m"
  shows "Count sc m = Inr (\<Sum>shard\<leftarrow>shards m. int (go_len (items shard)))"
  using assms Count_within [of sc m] by (simp add: initialized_def)

lemma snapshot_initialized:
  assumes "initialized sc m"
  shows "snapshot rt sc m = Inr (map (\<lambda>shard. go_range (items shard)) (shards m))"
  using assms by (auto simp: initialized_def snapshot_def)

lemma GetShard_any_count:
  assumes "sharding m = Some h"
  shows "GetShard sc m k =
           (if go_uint sc = 0 then Inl DivideByZero
            else if unat (h k) mod go_uint sc < length (shards m)
              then Inr (unat (h k) mod go_uint sc)
              else Inl IndexOutOfRange)"
  by (simp add: GetShard_def assms)

lemma Count_any_count:
  "Count sc m =
     (if nat sc \<le> length (shards m)
      then Inr (\<Sum>shard\<leftarrow>take (nat sc) (shards m). int (go_len (items shard)))
      else Inl IndexOutOfRange)"
  by (simp add: Count_within Count_beyond)

text \<open>
  C1, as the code has it. Take a map constructed while \<open>SHARD_COUNT\<close> was \<open>N\<close> (at
  least 1).

  While \<open>SHARD_COUNT\<close> is still \<open>N\<close>: \<open>GetShard\<close> sends \<open>k\<close> to shard
  \<open>sharding(k) mod N\<close>; \<open>Get\<close> and \<open>Set\<close> return, and \<open>Get(k)\<close> gives \<open>(v, true)\<close> after
  \<open>Set(k, v)\<close>; \<open>Count\<close> returns the sum of the sizes of the \<open>N\<close> shards; \<open>Keys\<close>,
  \<open>Iter\<close> and \<open>IterBuffered\<close> return the keys and the entries of the \<open>N\<close> shards, as
  the runtime delivers them.

  The operations read \<open>SHARD_COUNT\<close> at each call, not at construction. Under any value
  \<open>sc\<close> of it:
  \<^item> \<open>GetShard\<close> sends \<open>k\<close> to shard \<open>sharding(k) mod uint(sc)\<close> of the same \<open>N\<close>
    shards; it panics with a division by zero when \<open>sc\<close> is 0 and with an index out of
    range when there is no such shard.
  \<^item> \<open>Count\<close> returns the sum of the sizes of the first \<open>sc\<close> shards only (0 when
    \<open>sc \<le> 0\<close>), and panics with an index out of range when \<open>sc > N\<close>.
  \<^item> \<open>Keys\<close> panics with that index out of range when \<open>sc > N\<close>, and with a negative
    wait group counter when \<open>sc < 0\<close>. When \<open>0 \<le> sc < N\<close> a goroutine of the call
    panics (negative wait group counter, or send on closed channel when there is a key
    to send), and the caller has a result only if it is served first: the keys that the
    runtime delivered.
  \<^item> \<open>Iter\<close> and \<open>IterBuffered\<close> panic in \<open>make\<close> when \<open>sc < 0\<close>, and never deliver
    when \<open>sc > N\<close> (\<open>wg.Wait()\<close> is not released). When \<open>0 \<le> sc < N\<close> a goroutine of the
    call panics with an index out of range, and the caller has a result only if it is
    served first: the entries of the first \<open>sc\<close> shards.
\<close>

theorem shard_count_read_at_each_call:
  assumes "initialized N m" and "sharding m = Some h"
  shows "GetShard N m k = Inr (unat (h k) mod nat N) \<and>
         (\<exists>old found. Get N z m k = Inr (old, found)) \<and>
         (\<exists>m'. Set N m k v = Inr m' \<and> Get N z m' k = Inr (v, True)) \<and>
         Count N m = Inr (\<Sum>shard\<leftarrow>shards m. int (go_len (items shard))) \<and>
         Keys krt N m = Inr (deliver krt (all_keys m)) \<and>
         Iter rt N m =
           Inr (deliver rt (concat (map (\<lambda>shard. go_range (items shard)) (shards m)))) \<and>
         IterBuffered rt N m =
           Inr (deliver rt (concat (map (\<lambda>shard. go_range (items shard)) (shards m)))) \<and>
         GetShard sc m k =
           (if go_uint sc = 0 then Inl DivideByZero
            else if unat (h k) mod go_uint sc < nat N
              then Inr (unat (h k) mod go_uint sc)
              else Inl IndexOutOfRange) \<and>
         Count sc m =
           (if nat sc \<le> nat N
            then Inr (\<Sum>shard\<leftarrow>take (nat sc) (shards m). int (go_len (items shard)))
            else Inl IndexOutOfRange) \<and>
         Keys krt sc m =
           (if nat N < nat sc then Inl IndexOutOfRange
            else if sc < 0 then Inl NegativeWaitGroup
            else if nat sc < nat N then
              (case winner krt of
                 CallerFirst \<Rightarrow> Inr (deliver krt (all_keys m))
               | GoroutineFirst \<Rightarrow> Inl NegativeWaitGroup
               | SenderFirst \<Rightarrow>
                   if all_keys m = [] then Inl NegativeWaitGroup else Inl SendOnClosedChannel)
            else Inr (deliver krt (all_keys m))) \<and>
         Iter rt sc m =
           (if sc < 0 then Inl MakeSliceLen
            else if nat sc < nat N then
              (if winner rt = CallerFirst
               then Inr (deliver rt (concat (map (\<lambda>shard. go_range (items shard))
                                               (take (nat sc) (shards m)))))
               else Inl IndexOutOfRange)
            else if nat N < nat sc then Inl BlocksForever
            else Inr (deliver rt (concat (map (\<lambda>shard. go_range (items shard)) (shards m))))) \<and>
         IterBuffered rt sc m =
           (if sc < 0 then Inl MakeSliceLen
            else if nat sc < nat N then
              (if winner rt = CallerFirst
               then Inr (deliver rt (concat (map (\<lambda>shard. go_range (items shard))
                                               (take (nat sc) (shards m)))))
               else Inl IndexOutOfRange)
            else if nat N < nat sc then Inl BlocksForever
            else Inr (deliver rt (concat (map (\<lambda>shard. go_range (items shard)) (shards m)))))"
proof -
  from assms(1) have N: "0 < N" "go_int N" "length (shards m) = nat N" "0 < nat N"
    by (simp_all add: initialized_def)
  have 1: "GetShard N m k = Inr (unat (h k) mod nat N)"
    using N by (simp add: GetShard_any_count [OF assms(2)] go_uint_pos)
  have 2: "\<exists>old found. Get N z m k = Inr (old, found)"
    using Get_initialized [OF assms(1), of z k] by metis
  have 3: "\<exists>m'. Set N m k v = Inr m' \<and> Get N z m' k = Inr (v, True)"
    using Set_initialized [OF assms(1), of k v z] by metis
  note 4 = Count_initialized [OF assms(1)]
  have 5: "Keys krt N m = Inr (deliver krt (all_keys m))"
    using N by (simp add: Keys_def 4)
  have 6: "Iter rt N m =
             Inr (deliver rt (concat (map (\<lambda>shard. go_range (items shard)) (shards m))))"
    by (simp add: Iter_def snapshot_initialized [OF assms(1)] fanIn_def)
  have 7: "IterBuffered rt N m =
             Inr (deliver rt (concat (map (\<lambda>shard. go_range (items shard)) (shards m))))"
    by (simp add: IterBuffered_def snapshot_initialized [OF assms(1)] fanIn_def)
  have 8: "GetShard sc m k =
           (if go_uint sc = 0 then Inl DivideByZero
            else if unat (h k) mod go_uint sc < nat N
              then Inr (unat (h k) mod go_uint sc)
              else Inl IndexOutOfRange)"
    by (simp add: GetShard_any_count [OF assms(2)] N)
  have 9: "Count sc m =
           (if nat sc \<le> nat N
            then Inr (\<Sum>shard\<leftarrow>take (nat sc) (shards m). int (go_len (items shard)))
            else Inl IndexOutOfRange)"
    by (simp only: Count_any_count [of sc m] N(3))
  have 10: "Keys krt sc m =
           (if nat N < nat sc then Inl IndexOutOfRange
            else if sc < 0 then Inl NegativeWaitGroup
            else if nat sc < nat N then
              (case winner krt of
                 CallerFirst \<Rightarrow> Inr (deliver krt (all_keys m))
               | GoroutineFirst \<Rightarrow> Inl NegativeWaitGroup
               | SenderFirst \<Rightarrow>
                   if all_keys m = [] then Inl NegativeWaitGroup else Inl SendOnClosedChannel)
            else Inr (deliver krt (all_keys m)))"
  proof -
    consider (more) "nat N < nat sc" | (negative) "sc < 0"
      | (fewer) "0 \<le> sc" "nat sc < nat N" | (same) "0 \<le> sc" "nat sc = nat N"
      by linarith
    then show ?thesis
    proof cases
      case more
      then have "Count sc m = Inl IndexOutOfRange"
        by (simp add: Count_beyond N(3))
      with more show ?thesis by (simp add: Keys_def)
    next
      case negative
      then have "Count sc m = Inr 0"
        by (simp add: Count_within)
      with negative show ?thesis by (simp add: Keys_def)
    next
      case fewer
      then obtain c where "Count sc m = Inr c"
        using Count_within [of sc m] by (simp add: N(3))
      with fewer show ?thesis by (simp add: Keys_def N(3))
    next
      case same
      then obtain c where "Count sc m = Inr c"
        using Count_within [of sc m] by (simp add: N(3))
      with same show ?thesis by (simp add: Keys_def N(3))
    qed
  qed
  have snap: "snapshot rt sc m =
           (if sc < 0 then Inl MakeSliceLen
            else if nat sc < nat N then
              (if winner rt = CallerFirst
               then Inr (map (\<lambda>shard. go_range (items shard)) (take (nat sc) (shards m)))
               else Inl IndexOutOfRange)
            else if nat N < nat sc then Inl BlocksForever
            else Inr (map (\<lambda>shard. go_range (items shard)) (shards m)))"
    using N(4) by (simp add: snapshot_def N(3))
  have 11: "Iter rt sc m =
           (if sc < 0 then Inl MakeSliceLen
            else if nat sc < nat N then
              (if winner rt = CallerFirst
               then Inr (deliver rt (concat (map (\<lambda>shard. go_range (items shard))
                                               (take (nat sc) (shards m)))))
               else Inl IndexOutOfRange)
            else if nat N < nat sc then Inl BlocksForever
            else Inr (deliver rt (concat (map (\<lambda>shard. go_range (items shard)) (shards m)))))"
    by (simp add: Iter_def snap fanIn_def)
  have 12: "IterBuffered rt sc m =
           (if sc < 0 then Inl MakeSliceLen
            else if nat sc < nat N then
              (if winner rt = CallerFirst
               then Inr (deliver rt (concat (map (\<lambda>shard. go_range (items shard))
                                               (take (nat sc) (shards m)))))
               else Inl IndexOutOfRange)
            else if nat N < nat sc then Inl BlocksForever
            else Inr (deliver rt (concat (map (\<lambda>shard. go_range (items shard)) (shards m)))))"
    by (simp add: IterBuffered_def snap fanIn_def)
  from 1 2 3 4 5 6 7 8 9 10 11 12 show ?thesis
    by (intro conjI)
qed

text \<open>
  A map constructed and filled while \<open>SHARD_COUNT\<close> is 32, then used after
  \<open>SHARD_COUNT\<close> is set to 16 or to 64: \<open>Get\<close> no longer finds the key, or panics, and
  \<open>Count\<close> no longer counts it, or panics.
\<close>

theorem shard_count_changed_counterexample:
  "New 32 = Inr fresh32 \<and> Set 32 fresh32 ''a'' 100 = Inr with_a \<and>
   GetShard 32 with_a ''a'' = Inr 30 \<and> GetShard 16 with_a ''a'' = Inr 14 \<and>
   Get 32 0 with_a ''a'' = Inr (100, True) \<and>
   Get 16 0 with_a ''a'' = Inr (0, False) \<and>
   Get 64 0 with_a ''a'' = Inl IndexOutOfRange \<and>
   Set 64 with_a ''a'' 100 = Inl IndexOutOfRange \<and>
   Count 32 with_a = Inr 1 \<and> Count 16 with_a = Inr 0 \<and> Count 64 with_a = Inl IndexOutOfRange"
proof -
  have g32: "GetShard 32 with_a ''a'' = Inr 30"
    by (simp add: GetShard_def sharding_with_a shards_with_a fnv32_a go_uint_def)
  have g16: "GetShard 16 with_a ''a'' = Inr 14"
    by (simp add: GetShard_def sharding_with_a shards_with_a fnv32_a go_uint_def)
  have g64: "GetShard 64 with_a ''a'' = Inl IndexOutOfRange"
    by (simp add: GetShard_def sharding_with_a shards_with_a fnv32_a go_uint_def)
  have get32: "Get 32 0 with_a ''a'' = Inr (100, True)"
    by (simp add: Get_def g32 shard_items_def shards_with_a go_lookup_def)
  have get16: "Get 16 0 with_a ''a'' = Inr (0, False)"
    by (simp add: Get_def g16 shard_items_def shards_with_a go_lookup_def)
  have get64: "Get 64 0 with_a ''a'' = Inl IndexOutOfRange"
    by (simp add: Get_def g64)
  have set64: "Set 64 with_a ''a'' 100 = Inl IndexOutOfRange"
    by (simp add: Set_def g64)
  have c32: "Count 32 with_a = Inr 1"
    by (simp add: Count_initialized [OF initialized_with_a] shards_with_a
        upd_conv_take_nth_drop go_len_def go_range_def sum_list_replicate)
  have c16: "Count 16 with_a = Inr 0"
    by (simp add: Count_within shards_with_a go_len_def go_range_def sum_list_replicate)
  have c64: "Count 64 with_a = Inl IndexOutOfRange"
    by (simp add: Count_beyond shards_with_a)
  from New_32 Set_fresh32_a g32 g16 get32 get16 get64 set64 c32 c16 c64 show ?thesis
    by blast
qed

lemma first_16_with_a: "take 16 (shards with_a) = replicate 16 \<lparr>items = []\<rparr>"
  by (simp add: shards_with_a)

lemma all_keys_with_a: "all_keys with_a = [''a'']"
  by (simp add: all_keys_def shards_with_a upd_conv_take_nth_drop go_range_def)

theorem shard_count_read_at_each_call_witness:
  "initialized 32 with_a \<and> sharding with_a = Some fnv32 \<and>
   GetShard 32 with_a ''key'' = Inr (unat (fnv32 ''key'') mod nat 32) \<and>
   (\<exists>m'. Set 32 with_a ''key'' 1 = Inr m' \<and> Get 32 0 m' ''key'' = Inr (1, True)) \<and>
   Keys in_order 32 with_a = Inr [''a''] \<and>
   Count 16 with_a = Inr 0 \<and>
   Iter in_order 16 with_a = Inr [] \<and>
   Iter reversed 16 with_a = Inl IndexOutOfRange \<and>
   Keys reversed 16 with_a = Inl NegativeWaitGroup"
proof -
  note t = shard_count_read_at_each_call [OF initialized_with_a sharding_with_a,
      where k = "''key''" and v = 1 and z = 0 and sc = 16]
  have 1: "GetShard 32 with_a ''key'' = Inr (unat (fnv32 ''key'') mod nat 32)"
    and 2: "\<exists>m'. Set 32 with_a ''key'' 1 = Inr m' \<and> Get 32 0 m' ''key'' = Inr (1, True)"
    using t [of in_order in_order] by blast+
  have 3: "Keys in_order 32 with_a = Inr [''a'']"
    using t [of in_order in_order] by (simp add: all_keys_with_a in_order_def)
  have 4: "Count 16 with_a = Inr 0"
    using t [of in_order in_order]
    by (simp add: first_16_with_a go_len_def go_range_def sum_list_replicate)
  have 5: "Iter in_order 16 with_a = Inr []"
    using t [of in_order in_order] by (simp add: first_16_with_a go_range_def in_order_def)
  have 6: "Iter reversed 16 with_a = Inl IndexOutOfRange"
    using t [of reversed reversed] by (simp add: reversed_def)
  have 7: "Keys reversed 16 with_a = Inl NegativeWaitGroup"
    using t [of reversed reversed] by (simp add: reversed_def)
  from initialized_with_a sharding_with_a 1 2 3 4 5 6 7 show ?thesis
    by (intro conjI)
qed

section \<open>The whole map as one mapping\<close>







section \<open>Marshal and unmarshal\<close>

lemma binding_Get: "Get sc z m k = Inr (v, True) \<longleftrightarrow> binding sc m k = Some v"
  by (auto simp: Get_def binding_def go_lookup_def split: sum.splits option.splits)

lemma placedD:
  "placed sc m \<Longrightarrow> i < length (shards m) \<Longrightarrow> k \<in> fst ` set (shard_items m i)
     \<Longrightarrow> GetShard sc m k = Inr i"
  unfolding placed_def by blast

lemma placed_put_items:
  assumes "placed sc m" and "GetShard sc m k = Inr i"
    and "fst ` set its \<subseteq> insert k (fst ` set (shard_items m i))"
  shows "placed sc (put_items m i its)"
  unfolding placed_def
proof (intro allI impI ballI)
  fix j k'
  assume j: "j < length (shards (put_items m i its))"
    and k': "k' \<in> fst ` set (shard_items (put_items m i its) j)"
  from j have jl: "j < length (shards m)"
    by (simp add: put_items_def)
  note il = GetShard_bound [OF assms(2)]
  have "GetShard sc m k' = Inr j"
  proof (cases "j = i")
    case True
    with k' il have "k' \<in> fst ` set its"
      by (simp add: shard_items_put_items)
    with assms(3) have "k' = k \<or> k' \<in> fst ` set (shard_items m i)"
      by blast
    then show ?thesis
      using assms(2) placedD [OF assms(1) il] True by blast
  next
    case False
    with k' have "k' \<in> fst ` set (shard_items m j)"
      by (simp add: shard_items_put_items)
    then show ?thesis
      by (rule placedD [OF assms(1) jl])
  qed
  then show "GetShard sc (put_items m i its) k' = Inr j"
    by (simp add: GetShard_put_items)
qed

lemma Set_placed:
  assumes "placed sc m" and "Set sc m k v = Inr m'"
  shows "placed sc m'"
proof -
  from assms(2) obtain i where i: "GetShard sc m k = Inr i"
    and m': "m' = put_items m i (go_store k v (shard_items m i))"
    by (auto simp: Set_def split: sum.splits)
  show ?thesis
    unfolding m' by (rule placed_put_items [OF assms(1) i]) (simp add: go_store_def dom_update)
qed

lemma Remove_placed:
  assumes "placed sc m" and "Remove sc m k = Inr m'"
  shows "placed sc m'"
proof -
  from assms(2) obtain i where i: "GetShard sc m k = Inr i"
    and m': "m' = put_items m i (go_delete k (shard_items m i))"
    by (auto simp: Remove_def split: sum.splits)
  show ?thesis
    unfolding m'
    using dom_delete_subset [of k "shard_items m i"]
    by (intro placed_put_items [OF assms(1) i]) (auto simp: go_delete_def)
qed


text \<open>Every mutating call keeps the keys in the shards \<open>GetShard\<close> sends them to.\<close>

lemma MSet_loop_placed:
  "placed sc m \<Longrightarrow> MSet_loop sc m es = Inr m' \<Longrightarrow> placed sc m'"
proof (induction es arbitrary: m)
  case Nil
  then show ?case by simp
next
  case (Cons entry rest)
  from Cons.prems(2)
  have "(case Set sc m (fst entry) (snd entry) of Inl e \<Rightarrow> Inl e
         | Inr m1 \<Rightarrow> MSet_loop sc m1 rest) = Inr m'"
    by (simp only: MSet_loop_as_Set)
  then obtain m1 where s: "Set sc m (fst entry) (snd entry) = Inr m1"
    and l: "MSet_loop sc m1 rest = Inr m'"
    by (cases "Set sc m (fst entry) (snd entry)") simp_all
  from Cons.IH [OF Set_placed [OF Cons.prems(1) s] l] show ?case .
qed

lemma apply_call_placed:
  assumes "initialized sc m" and "placed sc m" and "apply_call sc z m c = Inr m'"
  shows "placed sc m'"
proof -
  have get: "\<exists>old found. Get sc z m key = Inr (old, found)" for key
    using Get_initialized [OF assms(1), of z key] by metis
  show ?thesis
  proof (cases c)
    case (CallSet key val)
    with assms(3) show ?thesis by (auto intro: Set_placed [OF assms(2)])
  next
    case (CallMSet rt data)
    with assms(3) show ?thesis by (auto simp: MSet_def intro: MSet_loop_placed [OF assms(2)])
  next
    case (CallUpsert key val cb)
    from get [of key] obtain old found where g: "Get sc z m key = Inr (old, found)" by blast
    from assms(3) CallUpsert have "Set sc m key (cb found old val) = Inr m'"
      by (cases "Set sc m key (cb found old val)") (simp_all add: Upsert_as_Set [OF g])
    then show ?thesis by (rule Set_placed [OF assms(2)])
  next
    case (CallSetIfAbsent key val)
    from get [of key] obtain old found where g: "Get sc z m key = Inr (old, found)" by blast
    from assms(3) CallSetIfAbsent have "m' = m \<or> Set sc m key val = Inr m'"
      by (cases "Set sc m key val") (auto simp: SetIfAbsent_as_Set [OF g] split: if_splits)
    then show ?thesis using assms(2) Set_placed [OF assms(2)] by blast
  next
    case (CallRemove key)
    with assms(3) show ?thesis by (auto intro: Remove_placed [OF assms(2)])
  next
    case (CallRemoveCb key cb)
    from get [of key] obtain old found where g: "Get sc z m key = Inr (old, found)" by blast
    from assms(3) CallRemoveCb have "m' = m \<or> Remove sc m key = Inr m'"
      by (cases "Remove sc m key") (auto simp: RemoveCb_as_Remove [OF g] split: if_splits)
    then show ?thesis using assms(2) Remove_placed [OF assms(2)] by blast
  next
    case (CallPop key)
    from get [of key] obtain old found where g: "Get sc z m key = Inr (old, found)" by blast
    from assms(3) CallPop have "Remove sc m key = Inr m'"
      by (cases "Remove sc m key") (simp_all add: Pop_as_Remove [OF g])
    then show ?thesis by (rule Remove_placed [OF assms(2)])
  qed
qed






lemma MSet_loop_initialized:
  "initialized sc m \<Longrightarrow> \<exists>m'. MSet_loop sc m es = Inr m' \<and> initialized sc m'"
proof (induction es arbitrary: m)
  case Nil
  then show ?case by simp
next
  case (Cons entry rest)
  obtain m1 where s: "Set sc m (fst entry) (snd entry) = Inr m1" and i1: "initialized sc m1"
    using Set_initialized [OF Cons.prems, of "fst entry" "snd entry"] by metis
  from Cons.IH [OF i1] show ?case
    by (simp only: MSet_loop_as_Set s sum.case)
qed

lemma apply_call_initialized:
  assumes "initialized sc m"
  shows "\<exists>m'. apply_call sc z m c = Inr m' \<and> initialized sc m'"
proof -
  have get: "\<exists>old found. Get sc z m key = Inr (old, found)" for key
    using Get_initialized [OF assms, of z key] by metis
  have set: "\<exists>m'. Set sc m key val = Inr m' \<and> initialized sc m'" for key val
    using Set_initialized [OF assms, of key val] by metis
  have remove: "\<exists>m'. Remove sc m key = Inr m' \<and> initialized sc m'" for key
    using Remove_initialized [OF assms, of key] by metis
  show ?thesis
  proof (cases c)
    case (CallSet key val)
    with set [of key val] show ?thesis by simp
  next
    case (CallMSet rt data)
    with MSet_loop_initialized [OF assms] show ?thesis by (simp add: MSet_def)
  next
    case (CallUpsert key val cb)
    from get [of key] obtain old found where g: "Get sc z m key = Inr (old, found)" by blast
    from set [of key "cb found old val"] CallUpsert show ?thesis
      by (auto simp: Upsert_as_Set [OF g])
  next
    case (CallSetIfAbsent key val)
    from get [of key] obtain old found where g: "Get sc z m key = Inr (old, found)" by blast
    from set [of key val] CallSetIfAbsent assms show ?thesis
      by (auto simp: SetIfAbsent_as_Set [OF g])
  next
    case (CallRemove key)
    with remove [of key] show ?thesis by simp
  next
    case (CallRemoveCb key cb)
    from get [of key] obtain old found where g: "Get sc z m key = Inr (old, found)" by blast
    from remove [of key] CallRemoveCb assms show ?thesis
      by (auto simp: RemoveCb_as_Remove [OF g])
  next
    case (CallPop key)
    from get [of key] obtain old found where g: "Get sc z m key = Inr (old, found)" by blast
    from remove [of key] CallPop show ?thesis
      by (auto simp: Pop_as_Remove [OF g])
  qed
qed

text \<open>
  The maps the package builds: a factory makes an initialized map whose keys are placed,
  and every sequence of mutating calls returns and keeps it so.
\<close>

lemma run_calls_invariant:
  assumes "initialized sc m" and "placed sc m"
  shows "\<exists>m'. run_calls sc z m cs = Inr m' \<and> initialized sc m' \<and> placed sc m'"
  using assms
proof (induction cs arbitrary: m)
  case Nil
  then show ?case by simp
next
  case (Cons c cs)
  obtain m1 where a: "apply_call sc z m c = Inr m1" and i1: "initialized sc m1"
    using apply_call_initialized [OF Cons.prems(1)] by blast
  note p1 = apply_call_placed [OF Cons.prems a]
  from Cons.IH [OF i1 p1] show ?case
    by (simp add: a)
qed










end
